theory Spec2Isabelle
  imports Complex_Main "HOL-Library.AList"
begin

section \<open>The workbook engine of server/src/sheet.ts\<close>

text \<open>
  A shallow embedding of the class \<open>SheetModel\<close>. Strings are lists of code units
  below 256; the row and column numbers the engine handles are integers, so JavaScript's
  number arithmetic on them is exact and is written with \<open>int\<close> and \<open>nat\<close>.
\<close>

subsection \<open>Errors\<close>

text \<open>
  Every \<open>throw\<close> of the source is a value: \<open>SheetNotFound n\<close> is
  \<open>Error(`Sheet not found: ${n}`)\<close>, \<open>SheetExists\<close> is \<open>Error('Sheet exists')\<close>,
  \<open>BadA1Ref s\<close> is \<open>Error(`Bad A1 ref: ${s}`)\<close>, \<open>UnknownOp s\<close> is
  \<open>Error(`Unknown op ${s}`)\<close>, and \<open>TypeError\<close> is what the runtime raises when a
  property of \<open>undefined\<close> is read or written.
\<close>

datatype error = SheetNotFound string | SheetExists | BadA1Ref string | UnknownOp string | TypeError

subsection \<open>Address codec\<close>

definition isUpper :: "char \<Rightarrow> bool" where
  "isUpper ch = (65 \<le> (of_char ch :: nat) \<and> (of_char ch :: nat) \<le> 90)"

definition isLower :: "char \<Rightarrow> bool" where
  "isLower ch = (97 \<le> (of_char ch :: nat) \<and> (of_char ch :: nat) \<le> 122)"

definition isAlpha :: "char \<Rightarrow> bool" where
  "isAlpha ch = (isUpper ch \<or> isLower ch)"

definition isDigit :: "char \<Rightarrow> bool" where
  "isDigit ch = (48 \<le> (of_char ch :: nat) \<and> (of_char ch :: nat) \<le> 57)"

text \<open>\<open>toUpperCase\<close> on one code unit below 128 (the only ones the callers pass).\<close>

definition toUpperCase :: "char \<Rightarrow> char" where
  "toUpperCase ch = (if isLower ch then char_of ((of_char ch :: nat) - 32) else ch)"

text \<open>
  The number-to-string conversion of \<open>s + (r + 1)\<close> for an integer: decimal digits,
  with a minus sign when negative.
\<close>

fun digitsOf :: "nat \<Rightarrow> string" where
  "digitsOf n = (if n < 10 then [char_of (48 + n)] else digitsOf (n div 10) @ [char_of (48 + n mod 10)])"

definition intToString :: "int \<Rightarrow> string" where
  "intToString i = (if i < 0 then CHR ''-'' # digitsOf (nat (- i)) else digitsOf (nat i))"

text \<open>\<open>parseInt(ds, 10)\<close> on a string of decimal digits.\<close>

definition parseInt :: "string \<Rightarrow> int" where
  "parseInt ds = foldl (\<lambda>acc d. acc * 10 + (int (of_char d) - 48)) 0 ds"

text \<open>
  \<open>ref.match(/^([A-Za-z]+)([0-9]+)$/)\<close>: the letters and the digits are disjoint, so the
  only way to match is the longest run of letters followed by digits up to the end.
\<close>

definition matchA1 :: "string \<Rightarrow> (string \<times> string) option" where
  "matchA1 ref =
     (let ls = takeWhile isAlpha ref; ds = dropWhile isAlpha ref
      in if ls \<noteq> [] \<and> ds \<noteq> [] \<and> list_all isDigit ds then Some (ls, ds) else None)"

definition a1ToRc :: "string \<Rightarrow> error + (int \<times> int)" where
  "a1ToRc ref =
     (case matchA1 ref of
        None \<Rightarrow> Inl (BadA1Ref ref)
      | Some (m1, m2) \<Rightarrow>
          (let colStr = map toUpperCase m1;
               row = parseInt m2 - 1;
               col = foldl (\<lambda>col ch. col * 26 + (int (of_char ch) - 64)) 0 colStr
           in Inr (row, col - 1)))"

text \<open>The \<open>while (n > 0)\<close> loop of \<open>rcToA1\<close>, on the pair \<open>(n, s)\<close>.\<close>

function colLetters :: "int \<Rightarrow> string \<Rightarrow> string" where
  "colLetters n s =
     (if n > 0 then colLetters ((n - 1) div 26) (char_of (nat (65 + (n - 1) mod 26)) # s) else s)"
  by pat_completeness auto
termination
  by (relation "measure (\<lambda>(n, s). nat n)") auto

definition rcToA1 :: "int \<Rightarrow> int \<Rightarrow> string" where
  "rcToA1 r c = colLetters (c + 1) [] @ intToString (r + 1)"

subsection \<open>Values, cells and sheets\<close>

text \<open>
  A JavaScript number is a finite value, one of the two infinities, or NaN. Negative zero
  is identified with zero: the engine only converts numbers to strings, adds them and
  tests them for NaN and finiteness, and none of these tells the two zeros apart.
\<close>

datatype jsnum = Finite rat | PosInf | NegInf | NaN

definition isNaN :: "jsnum \<Rightarrow> bool" where
  "isNaN n = (n = NaN)"

fun isFinite :: "jsnum \<Rightarrow> bool" where
  "isFinite (Finite q) = True"
| "isFinite n = False"

text \<open>A cell value is \<open>string | number | null\<close>; \<open>Undefined\<close> is the missing property of \<open>{}\<close>.\<close>

datatype jsval = Null | Undefined | Num jsnum | Str string

text \<open>
  Modelled from the spec: the type \<open>CellProvenance\<close> is declared in \<open>types.ts\<close>, which is
  not among the sources; the spec calls it free-form attribution metadata, and the engine
  never looks inside a record. A provenance array is an object shared between a cell and
  its shallow copies (\<open>{ ...cell }\<close> copies the reference) and is mutated in place by
  \<open>linkProvenance\<close>, so it lives in a store and a cell holds its address.
\<close>

type_synonym prov = string
type_synonym addr = nat

text \<open>
  Modelled from the spec: the type \<open>Cell\<close> of \<open>types.ts\<close> (not among the sources), with
  the fields the spec's data model lists and \<open>sheet.ts\<close> uses; the field \<open>value\<close> is
  \<open>val\<close> here.
\<close>

record Cell =
  val :: jsval
  formula :: "string option"
  format :: "string option"
  provenance :: "addr option"

text \<open>\<open>{ value: null }\<close>, the cell that padding creates.\<close>

definition defaultCell :: Cell where
  "defaultCell = \<lparr>val = Null, formula = None, format = None, provenance = None\<rparr>"

text \<open>\<open>{ ...undefined }\<close>, that is \<open>{}\<close>.\<close>

definition emptyCell :: Cell where
  "emptyCell = \<lparr>val = Undefined, formula = None, format = None, provenance = None\<rparr>"

text \<open>
  A row is a JavaScript array of cells; \<open>None\<close> is a slot that reads as \<open>undefined\<close>
  (a hole left by a write beyond the end of the array).
\<close>

type_synonym grid = "Cell option list list"

text \<open>
  Modelled from the spec: the types \<open>Sheet\<close> and \<open>RangeRef\<close> of \<open>types.ts\<close> (not among
  the sources). The bounds of a range are 0-based and inclusive.
\<close>

record Sheet =
  name :: string
  rows :: grid

record RangeRef =
  sheet :: string
  r1 :: nat
  c1 :: nat
  r2 :: nat
  c2 :: nat

subsection \<open>Operations, events and the workbook\<close>

text \<open>An operation name together with its arguments, as \<open>dispatch\<close> receives them.\<close>

datatype opcall =
    CreateSheet string
  | DeleteSheet string
  | RestoreSheet Sheet
  | SetValues RangeRef "jsval list list" "prov list option"
  | SetFormulas RangeRef "string option list list"
  | FormatRange RangeRef "string option"
  | SetCells RangeRef "Cell list list"
  | LinkProvenance RangeRef "prov list"
  | Noop
  | OtherOp string

text \<open>
  Modelled from the spec: the types \<open>SheetEvent\<close> and \<open>Workbook\<close> of \<open>types.ts\<close> (not
  among the sources), with the fields \<open>appendEvent\<close>, \<open>checkpoint\<close> and the constructor
  fill in. An event keeps its op name, its inverse and its summary. The \<open>id\<close> and
  \<open>ts\<close> fields (a random string and the clock) and the forward \<open>args\<close> are never read
  by the engine and are left out.
\<close>

record SheetEvent =
  ev_op :: string
  ev_inverse :: opcall
  ev_summary :: string

record Checkpoint =
  cp_id :: string
  atEvent :: nat

text \<open>
  The state of a \<open>SheetModel\<close>: the fields of \<open>this.wb\<close> (without the random workbook
  id), and the store of provenance arrays. \<open>sheets\<close> is the \<open>Map\<close> in insertion order.
\<close>

record model =
  sheets :: "(string \<times> Sheet) list"
  checkpoints :: "Checkpoint list"
  events :: "SheetEvent list"
  store :: "prov list list"

text \<open>A call returns a value or throws; in both cases the mutated state is left behind.\<close>

datatype 'a outcome = Returns 'a | Throws error

fun forEach :: "'a list \<Rightarrow> ('a \<Rightarrow> 's \<Rightarrow> unit outcome \<times> 's) \<Rightarrow> 's \<Rightarrow> unit outcome \<times> 's" where
  "forEach [] f m = (Returns (), m)"
| "forEach (x # xs) f m =
     (case f x m of
        (Throws e, m') \<Rightarrow> (Throws e, m')
      | (Returns u, m') \<Rightarrow> forEach xs f m')"

fun mapE :: "'a list \<Rightarrow> ('a \<Rightarrow> 'b outcome) \<Rightarrow> 'b list outcome" where
  "mapE [] f = Returns []"
| "mapE (x # xs) f =
     (case f x of
        Throws e \<Rightarrow> Throws e
      | Returns y \<Rightarrow> (case mapE xs f of Throws e \<Rightarrow> Throws e | Returns ys \<Rightarrow> Returns (y # ys)))"

subsection \<open>Helpers\<close>

definition getSheet :: "string \<Rightarrow> model \<Rightarrow> Sheet outcome" where
  "getSheet nm m =
     (case map_of (sheets m) nm of None \<Rightarrow> Throws (SheetNotFound nm) | Some s \<Rightarrow> Returns s)"

text \<open>
  The sheet object stored under a key is mutated in place in the source; here the mutated
  sheet is written back under the same key (the position in the map is kept).
\<close>

definition putSheet :: "string \<Rightarrow> Sheet \<Rightarrow> model \<Rightarrow> model" where
  "putSheet nm s m = m\<lparr>sheets := AList.update nm s (sheets m)\<rparr>"

definition padRow :: "int \<Rightarrow> Cell option list \<Rightarrow> Cell option list" where
  "padRow ncols row = row @ replicate (nat ncols - length row) (Some defaultCell)"

definition padded :: "int \<Rightarrow> int \<Rightarrow> grid \<Rightarrow> grid" where
  "padded nrows ncols g = map (padRow ncols) (g @ replicate (nat nrows - length g) [])"

definition ensureSize :: "string \<Rightarrow> int \<Rightarrow> int \<Rightarrow> model \<Rightarrow> unit outcome \<times> model" where
  "ensureSize nm nrows ncols m =
     (case getSheet nm m of
        Throws e \<Rightarrow> (Throws e, m)
      | Returns s \<Rightarrow> (Returns (), putSheet nm (s\<lparr>rows := padded nrows ncols (rows s)\<rparr>) m))"

text \<open>
  \<open>s.rows[r][c]\<close>: a TypeError when \<open>s.rows[r]\<close> is \<open>undefined\<close>, and \<open>undefined\<close>
  (\<open>None\<close>) when the column is outside the row or the slot is a hole.
\<close>

definition readCell :: "grid \<Rightarrow> int \<Rightarrow> int \<Rightarrow> Cell option outcome" where
  "readCell g r c =
     (if r < 0 \<or> int (length g) \<le> r then Throws TypeError
      else (let row = g ! nat r
            in if c < 0 \<or> int (length row) \<le> c then Returns None else Returns (row ! nat c)))"

text \<open>\<open>row[cc] = x\<close>: a write beyond the end extends the array and leaves holes.\<close>

definition writeRow :: "Cell option list \<Rightarrow> nat \<Rightarrow> Cell \<Rightarrow> Cell option list" where
  "writeRow row cc x =
     (if cc < length row then row[cc := Some x]
      else row @ replicate (cc - length row) None @ [Some x])"

definition writeCell :: "grid \<Rightarrow> nat \<Rightarrow> nat \<Rightarrow> Cell \<Rightarrow> grid outcome" where
  "writeCell g rr cc x =
     (if rr < length g then Returns (g[rr := writeRow (g ! rr) cc x]) else Throws TypeError)"

text \<open>\<open>x ?? { value: null }\<close> and \<open>{ ...x }\<close> on what \<open>s.rows[r][c]\<close> gave.\<close>

definition orDefault :: "Cell option \<Rightarrow> Cell" where
  "orDefault x = (case x of None \<Rightarrow> defaultCell | Some p \<Rightarrow> p)"

definition spread :: "Cell option \<Rightarrow> Cell" where
  "spread x = (case x of None \<Rightarrow> emptyCell | Some p \<Rightarrow> p)"

definition snapshot :: "RangeRef \<Rightarrow> model \<Rightarrow> Cell list list outcome \<times> model" where
  "snapshot rg m =
     (case getSheet (sheet rg) m of
        Throws e \<Rightarrow> (Throws e, m)
      | Returns s0 \<Rightarrow>
         (case ensureSize (sheet rg) (int (r2 rg) + 1) (int (c2 rg) + 1) m of
            (Throws e, m1) \<Rightarrow> (Throws e, m1)
          | (Returns u, m1) \<Rightarrow>
             (case getSheet (sheet rg) m1 of
                Throws e \<Rightarrow> (Throws e, m1)
              | Returns s \<Rightarrow>
                 (mapE [r1 rg ..< Suc (r2 rg)] (\<lambda>r.
                    mapE [c1 rg ..< Suc (c2 rg)] (\<lambda>c.
                      (case readCell (rows s) (int r) (int c) of
                         Throws e \<Rightarrow> Throws e
                       | Returns x \<Rightarrow> Returns (spread x)))), m1))))"

subsection \<open>Events and checkpoints\<close>

definition appendEvent :: "string \<Rightarrow> opcall \<Rightarrow> string \<Rightarrow> model \<Rightarrow> model" where
  "appendEvent opname inver summ m =
     m\<lparr>events := events m @ [\<lparr>ev_op = opname, ev_inverse = inver, ev_summary = summ\<rparr>]\<rparr>"

text \<open>\<open>checkpoint(id)\<close>; the argument is the id given, or the random one drawn when none is.\<close>

definition checkpoint :: "string \<Rightarrow> model \<Rightarrow> model" where
  "checkpoint ident m =
     m\<lparr>checkpoints := checkpoints m @ [\<lparr>cp_id = ident, atEvent = length (events m)\<rparr>]\<rparr>"

subsection \<open>Sheet operations\<close>

definition createSheet :: "string \<Rightarrow> model \<Rightarrow> unit outcome \<times> model" where
  "createSheet nm m =
     (if map_of (sheets m) nm \<noteq> None then (Throws SheetExists, m)
      else (Returns (),
            appendEvent ''createSheet'' (DeleteSheet nm) (''create '' @ nm)
              (m\<lparr>sheets := AList.update nm \<lparr>name = nm, rows = []\<rparr> (sheets m)\<rparr>)))"

definition deleteSheet :: "string \<Rightarrow> model \<Rightarrow> unit outcome \<times> model" where
  "deleteSheet nm m =
     (case getSheet nm m of
        Throws e \<Rightarrow> (Throws e, m)
      | Returns s \<Rightarrow>
         (Returns (),
          appendEvent ''deleteSheet'' (RestoreSheet s) (''delete '' @ nm)
            (m\<lparr>sheets := AList.delete nm (sheets m)\<rparr>)))"

definition restoreSheet :: "Sheet \<Rightarrow> model \<Rightarrow> unit outcome \<times> model" where
  "restoreSheet s m =
     (Returns (),
      appendEvent ''restoreSheet'' (DeleteSheet (name s)) (''restore '' @ name s)
        (m\<lparr>sheets := AList.update (name s) s (sheets m)\<rparr>))"

text \<open>The body of the inner loop of \<open>setValues\<close>, at \<open>rr = range.r1 + r\<close>, \<open>cc = range.c1 + c\<close>.\<close>

definition setValuesCell ::
  "string \<Rightarrow> nat \<Rightarrow> nat \<Rightarrow> jsval \<Rightarrow> prov list option \<Rightarrow> model \<Rightarrow> unit outcome \<times> model" where
  "setValuesCell nm rr cc v pr m =
     (case getSheet nm m of
        Throws e \<Rightarrow> (Throws e, m)
      | Returns s \<Rightarrow>
         (case readCell (rows s) (int rr) (int cc) of
            Throws e \<Rightarrow> (Throws e, m)
          | Returns x \<Rightarrow>
             (let prev = orDefault x;
                  m1 = (case pr of None \<Rightarrow> m | Some ps \<Rightarrow> m\<lparr>store := store m @ [ps]\<rparr>);
                  pa = (case pr of None \<Rightarrow> provenance prev | Some ps \<Rightarrow> Some (length (store m)));
                  new = prev\<lparr>val := v, formula := None, provenance := pa\<rparr>
              in (case writeCell (rows s) rr cc new of
                    Throws e \<Rightarrow> (Throws e, m1)
                  | Returns g \<Rightarrow> (Returns (), putSheet nm (s\<lparr>rows := g\<rparr>) m1)))))"

definition setValues ::
  "RangeRef \<Rightarrow> jsval list list \<Rightarrow> prov list option \<Rightarrow> model \<Rightarrow> unit outcome \<times> model" where
  "setValues rg values pr m =
     (case snapshot rg m of
        (Throws e, m1) \<Rightarrow> (Throws e, m1)
      | (Returns snap, m1) \<Rightarrow>
         (case ensureSize (sheet rg) (int (r2 rg) + 1) (int (c2 rg) + 1) m1 of
            (Throws e, m2) \<Rightarrow> (Throws e, m2)
          | (Returns u, m2) \<Rightarrow>
             (case forEach (List.enumerate 0 values) (\<lambda>(r, vrow).
                     forEach (List.enumerate 0 vrow) (\<lambda>(c, v).
                       setValuesCell (sheet rg) (r1 rg + r) (c1 rg + c) v pr)) m2 of
                (Throws e, m3) \<Rightarrow> (Throws e, m3)
              | (Returns u, m3) \<Rightarrow>
                 (Returns (),
                  appendEvent ''setValues'' (SetCells rg snap)
                    (''setValues '' @ sheet rg @ ''!'' @ rcToA1 (int (r1 rg)) (int (c1 rg)))
                    m3))))"

definition setCellsCell :: "string \<Rightarrow> nat \<Rightarrow> nat \<Rightarrow> Cell \<Rightarrow> model \<Rightarrow> unit outcome \<times> model" where
  "setCellsCell nm rr cc x m =
     (case getSheet nm m of
        Throws e \<Rightarrow> (Throws e, m)
      | Returns s \<Rightarrow>
         (case writeCell (rows s) rr cc x of
            Throws e \<Rightarrow> (Throws e, m)
          | Returns g \<Rightarrow> (Returns (), putSheet nm (s\<lparr>rows := g\<rparr>) m)))"

definition setCells :: "RangeRef \<Rightarrow> Cell list list \<Rightarrow> model \<Rightarrow> unit outcome \<times> model" where
  "setCells rg cells m =
     (case getSheet (sheet rg) m of
        Throws e \<Rightarrow> (Throws e, m)
      | Returns s0 \<Rightarrow>
         (case ensureSize (sheet rg) (int (r2 rg) + 1) (int (c2 rg) + 1) m of
            (Throws e, m1) \<Rightarrow> (Throws e, m1)
          | (Returns u, m1) \<Rightarrow>
             (case forEach (List.enumerate 0 cells) (\<lambda>(r, crow).
                     forEach (List.enumerate 0 crow) (\<lambda>(c, x).
                       setCellsCell (sheet rg) (r1 rg + r) (c1 rg + c) x)) m1 of
                (Throws e, m2) \<Rightarrow> (Throws e, m2)
              | (Returns u, m2) \<Rightarrow>
                 (Returns (), appendEvent ''setCells'' Noop ''setCells'' m2))))"

definition setFormulasCell ::
  "string \<Rightarrow> nat \<Rightarrow> nat \<Rightarrow> string option \<Rightarrow> model \<Rightarrow> unit outcome \<times> model" where
  "setFormulasCell nm rr cc f m =
     (case getSheet nm m of
        Throws e \<Rightarrow> (Throws e, m)
      | Returns s \<Rightarrow>
         (case readCell (rows s) (int rr) (int cc) of
            Throws e \<Rightarrow> (Throws e, m)
          | Returns x \<Rightarrow>
             (case writeCell (rows s) rr cc ((orDefault x)\<lparr>val := Null, formula := f\<rparr>) of
                Throws e \<Rightarrow> (Throws e, m)
              | Returns g \<Rightarrow> (Returns (), putSheet nm (s\<lparr>rows := g\<rparr>) m))))"

definition setFormulas ::
  "RangeRef \<Rightarrow> string option list list \<Rightarrow> model \<Rightarrow> unit outcome \<times> model" where
  "setFormulas rg formulas m =
     (case snapshot rg m of
        (Throws e, m1) \<Rightarrow> (Throws e, m1)
      | (Returns snap, m1) \<Rightarrow>
         (case ensureSize (sheet rg) (int (r2 rg) + 1) (int (c2 rg) + 1) m1 of
            (Throws e, m2) \<Rightarrow> (Throws e, m2)
          | (Returns u, m2) \<Rightarrow>
             (case forEach (List.enumerate 0 formulas) (\<lambda>(r, frow).
                     forEach (List.enumerate 0 frow) (\<lambda>(c, f).
                       setFormulasCell (sheet rg) (r1 rg + r) (c1 rg + c) f)) m2 of
                (Throws e, m3) \<Rightarrow> (Throws e, m3)
              | (Returns u, m3) \<Rightarrow>
                 (Returns (),
                  appendEvent ''setFormulas'' (SetCells rg snap)
                    (''setFormulas '' @ sheet rg @ ''!'' @ rcToA1 (int (r1 rg)) (int (c1 rg)))
                    m3))))"

definition formatRangeCell ::
  "string \<Rightarrow> nat \<Rightarrow> nat \<Rightarrow> string option \<Rightarrow> model \<Rightarrow> unit outcome \<times> model" where
  "formatRangeCell nm r c fmt m =
     (case getSheet nm m of
        Throws e \<Rightarrow> (Throws e, m)
      | Returns s \<Rightarrow>
         (case readCell (rows s) (int r) (int c) of
            Throws e \<Rightarrow> (Throws e, m)
          | Returns x \<Rightarrow>
             (case writeCell (rows s) r c ((orDefault x)\<lparr>format := fmt\<rparr>) of
                Throws e \<Rightarrow> (Throws e, m)
              | Returns g \<Rightarrow> (Returns (), putSheet nm (s\<lparr>rows := g\<rparr>) m))))"

definition formatRange :: "RangeRef \<Rightarrow> string option \<Rightarrow> model \<Rightarrow> unit outcome \<times> model" where
  "formatRange rg fmt m =
     (case snapshot rg m of
        (Throws e, m1) \<Rightarrow> (Throws e, m1)
      | (Returns snap, m1) \<Rightarrow>
         (case ensureSize (sheet rg) (int (r2 rg) + 1) (int (c2 rg) + 1) m1 of
            (Throws e, m2) \<Rightarrow> (Throws e, m2)
          | (Returns u, m2) \<Rightarrow>
             (case forEach [r1 rg ..< Suc (r2 rg)] (\<lambda>r.
                     forEach [c1 rg ..< Suc (c2 rg)] (\<lambda>c.
                       formatRangeCell (sheet rg) r c fmt)) m2 of
                (Throws e, m3) \<Rightarrow> (Throws e, m3)
              | (Returns u, m3) \<Rightarrow>
                 (Returns (),
                  appendEvent ''formatRange'' (SetCells rg snap)
                    (''formatRange '' @ sheet rg @ '' '' @
                       (case fmt of None \<Rightarrow> ''clear'' | Some f \<Rightarrow> f))
                    m3))))"

text \<open>
  The loop body of \<open>linkProvenance\<close>: the cell object is mutated in place (a fresh array
  is attached when it has none), then the entries are pushed onto the array it holds.
\<close>

definition linkProvenanceCell ::
  "string \<Rightarrow> nat \<Rightarrow> nat \<Rightarrow> prov list \<Rightarrow> model \<Rightarrow> unit outcome \<times> model" where
  "linkProvenanceCell nm r c pr m =
     (case getSheet nm m of
        Throws e \<Rightarrow> (Throws e, m)
      | Returns s \<Rightarrow>
         (case readCell (rows s) (int r) (int c) of
            Throws e \<Rightarrow> (Throws e, m)
          | Returns None \<Rightarrow> (Throws TypeError, m)
          | Returns (Some x) \<Rightarrow>
             (case provenance x of
                Some a \<Rightarrow> (Returns (), m\<lparr>store := (store m)[a := store m ! a @ pr]\<rparr>)
              | None \<Rightarrow>
                 (case writeCell (rows s) r c (x\<lparr>provenance := Some (length (store m))\<rparr>) of
                    Throws e \<Rightarrow> (Throws e, m)
                  | Returns g \<Rightarrow>
                     (Returns (), putSheet nm (s\<lparr>rows := g\<rparr>) (m\<lparr>store := store m @ [pr]\<rparr>))))))"

definition linkProvenance :: "RangeRef \<Rightarrow> prov list \<Rightarrow> model \<Rightarrow> unit outcome \<times> model" where
  "linkProvenance rg pr m =
     (case snapshot rg m of
        (Throws e, m1) \<Rightarrow> (Throws e, m1)
      | (Returns snap, m1) \<Rightarrow>
         (case forEach [r1 rg ..< Suc (r2 rg)] (\<lambda>r.
                 forEach [c1 rg ..< Suc (c2 rg)] (\<lambda>c.
                   linkProvenanceCell (sheet rg) r c pr)) m1 of
            (Throws e, m2) \<Rightarrow> (Throws e, m2)
          | (Returns u, m2) \<Rightarrow>
             (Returns (),
              appendEvent ''linkProvenance'' (SetCells rg snap)
                (''linkProvenance '' @ sheet rg) m2)))"

subsection \<open>Dispatch and undo\<close>

definition dispatch :: "opcall \<Rightarrow> bool \<Rightarrow> model \<Rightarrow> unit outcome \<times> model" where
  "dispatch call internal m =
     (case call of
        CreateSheet nm \<Rightarrow> createSheet nm m
      | DeleteSheet nm \<Rightarrow> deleteSheet nm m
      | RestoreSheet s \<Rightarrow> restoreSheet s m
      | SetValues rg values pr \<Rightarrow> setValues rg values pr m
      | SetFormulas rg formulas \<Rightarrow> setFormulas rg formulas m
      | FormatRange rg fmt \<Rightarrow> formatRange rg fmt m
      | SetCells rg cells \<Rightarrow> setCells rg cells m
      | LinkProvenance rg pr \<Rightarrow> linkProvenance rg pr m
      | Noop \<Rightarrow> (Returns (), m)
      | OtherOp opname \<Rightarrow> (if internal then (Returns (), m) else (Throws (UnknownOp opname), m)))"

text \<open>\<open>undo()\<close> returns the popped event, or \<open>null\<close> (\<open>None\<close>) on an empty log.\<close>

definition undo :: "model \<Rightarrow> SheetEvent option outcome \<times> model" where
  "undo m =
     (case events m of
        [] \<Rightarrow> (Returns None, m)
      | e # es \<Rightarrow>
         (let ev = last (events m); m1 = m\<lparr>events := butlast (events m)\<rparr>
          in (case dispatch (ev_inverse ev) True m1 of
                (Throws e, m2) \<Rightarrow> (Throws e, m2)
              | (Returns u, m2) \<Rightarrow> (Returns (Some ev), m2))))"

subsection \<open>Strings and regular expressions of the evaluator\<close>

text \<open>The white space of \<open>trim()\<close> and of \<open>\s\<close>, among the code units below 256.\<close>

definition isSpace :: "char \<Rightarrow> bool" where
  "isSpace ch = ((of_char ch :: nat) \<in> {9, 10, 11, 12, 13, 32, 160})"

definition trim :: "string \<Rightarrow> string" where
  "trim s = rev (dropWhile isSpace (rev (dropWhile isSpace s)))"

text \<open>The word characters of \<open>\b\<close>.\<close>

definition isWord :: "char \<Rightarrow> bool" where
  "isWord ch = (isAlpha ch \<or> isDigit ch \<or> ch = CHR ''_'')"

fun startsWith :: "string \<Rightarrow> string \<Rightarrow> bool" where
  "startsWith [] s = True"
| "startsWith (p # ps) [] = False"
| "startsWith (p # ps) (x # xs) = (p = x \<and> startsWith ps xs)"

fun strIncludes :: "string \<Rightarrow> string \<Rightarrow> bool" where
  "strIncludes sub [] = (sub = [])"
| "strIncludes sub (x # xs) = (startsWith sub (x # xs) \<or> strIncludes sub xs)"

text \<open>\<open>args.split(',')\<close>.\<close>

fun splitOn :: "char \<Rightarrow> string \<Rightarrow> string list" where
  "splitOn sep [] = [[]]"
| "splitOn sep (x # xs) =
     (if x = sep then [] # splitOn sep xs
      else (case splitOn sep xs of [] \<Rightarrow> [[x]] | t # ts \<Rightarrow> (x # t) # ts))"

text \<open>
  A global \<open>replace\<close> with a function first finds all matches, left to right and without
  overlap, and then calls the function on each match in order. The string is cut into
  the characters outside the matches and, for each match, its capture group.
\<close>

datatype seg = Lit char | Hit string

text \<open>
  \<open>/SUM\(\s*([^)]+?)\s*\)/gi\<close> at the head of a string: the text up to the first
  \<open>)\<close> must be non-empty; the greedy \<open>\s*\<close> and the lazy group leave the text trimmed
  in the group, or its last character when it is all white space. The result is the
  group and the length of the match.
\<close>

definition sumCapture :: "string \<Rightarrow> string" where
  "sumCapture content = (if list_all isSpace content then [last content] else trim content)"

definition matchSumAt :: "string \<Rightarrow> (string \<times> nat) option" where
  "matchSumAt s =
     (case s of
        a # b # c # d # rest \<Rightarrow>
          (if toUpperCase a = CHR ''S'' \<and> toUpperCase b = CHR ''U'' \<and> toUpperCase c = CHR ''M''
              \<and> d = CHR ''(''
           then (let content = takeWhile (\<lambda>x. x \<noteq> CHR '')'') rest;
                     after = dropWhile (\<lambda>x. x \<noteq> CHR '')'') rest
                 in if content \<noteq> [] \<and> after \<noteq> [] then Some (sumCapture content, length content + 5)
                    else None)
           else None)
      | _ \<Rightarrow> None)"

text \<open>The scan; the first argument counts the characters of a match still to skip.\<close>

fun sumScan :: "nat \<Rightarrow> string \<Rightarrow> seg list" where
  "sumScan k [] = []"
| "sumScan (Suc k) (x # xs) = sumScan k xs"
| "sumScan 0 (x # xs) =
     (case matchSumAt (x # xs) of
        Some (cap, len) \<Rightarrow> Hit cap # sumScan (len - 1) xs
      | None \<Rightarrow> Lit x # sumScan 0 xs)"

text \<open>
  \<open>/\b([A-Za-z]+[0-9]+)\b/g\<close> at the head of a string, given whether the character
  before it is a word character: all the letters, then all the digits, and then no word
  character.
\<close>

definition matchRefAt :: "bool \<Rightarrow> string \<Rightarrow> string option" where
  "matchRefAt prevWord s =
     (if prevWord then None
      else (let ls = takeWhile isAlpha s; rest = dropWhile isAlpha s;
                ds = takeWhile isDigit rest; after = dropWhile isDigit rest
            in if ls \<noteq> [] \<and> ds \<noteq> [] \<and> (case after of [] \<Rightarrow> True | y # ys \<Rightarrow> \<not> isWord y)
               then Some (ls @ ds) else None))"

fun refScan :: "bool \<Rightarrow> nat \<Rightarrow> string \<Rightarrow> seg list" where
  "refScan prevWord k [] = []"
| "refScan prevWord (Suc k) (x # xs) = refScan (isWord x) k xs"
| "refScan prevWord 0 (x # xs) =
     (case matchRefAt prevWord (x # xs) of
        Some tok \<Rightarrow> Hit tok # refScan (isWord x) (length tok - 1) xs
      | None \<Rightarrow> Lit x # refScan (isWord x) 0 xs)"

text \<open>\<open>/^[A-Za-z]+[0-9]+:[A-Za-z]+[0-9]+$/\<close>, giving the two corner references.\<close>

definition matchRange :: "string \<Rightarrow> (string \<times> string) option" where
  "matchRange t =
     (case dropWhile (\<lambda>x. x \<noteq> CHR '':'') t of
        [] \<Rightarrow> None
      | colon # b \<Rightarrow>
          (let a = takeWhile (\<lambda>x. x \<noteq> CHR '':'') t
           in if matchA1 a \<noteq> None \<and> matchA1 b \<noteq> None then Some (a, b) else None))"

subsection \<open>What the evaluator takes from the JavaScript runtime\<close>

text \<open>
  The evaluator converts strings to numbers with \<open>Number\<close>, numbers to strings with
  \<open>String\<close>, adds numbers, and runs the residual expression with
  \<open>Function(`"use strict"; return (${expr})`)()\<close>. These are the runtime's, not the
  repository's, and are parameters of the model. For the run of an expression,
  \<open>GaveNumber n\<close> is a result of type number; \<open>GaveOther n\<close> is a result of another type
  whose conversion \<open>Number(val)\<close> is \<open>n\<close>; \<open>Threw\<close> is an exception raised inside
  the \<open>try\<close> block. The run is taken to be a function of the expression text without
  effect on the workbook.
\<close>

datatype runres = Threw | GaveNumber jsnum | GaveOther jsnum

record js =
  js_Number :: "string \<Rightarrow> jsnum"
  js_String :: "jsnum \<Rightarrow> string"
  js_add :: "jsnum \<Rightarrow> jsnum \<Rightarrow> jsnum"
  js_run :: "string \<Rightarrow> runres"

text \<open>\<open>Number(v)\<close> and \<open>String(v)\<close> on a cell value.\<close>

fun toNumber :: "js \<Rightarrow> jsval \<Rightarrow> jsnum" where
  "toNumber J (Num n) = n"
| "toNumber J (Str s) = js_Number J s"
| "toNumber J Null = Finite 0"
| "toNumber J Undefined = NaN"

fun toString :: "js \<Rightarrow> jsval \<Rightarrow> string" where
  "toString J (Str s) = s"
| "toString J (Num n) = js_String J n"
| "toString J Null = ''null''"
| "toString J Undefined = ''undefined''"

text \<open>\<open>v ?? null\<close>.\<close>

fun orNull :: "jsval \<Rightarrow> jsval" where
  "orNull Undefined = Null"
| "orNull v = v"

subsection \<open>Evaluation\<close>

text \<open>
  The key \<open>`${sheet}:${r}:${c}`\<close> of the visited set is the triple it is built from (the
  row and the column are printed in decimal, so the string determines the triple). The
  set \<open>seen\<close> is one mutable object shared by a whole top-level call, so it is part of
  the state that the evaluation threads.
\<close>

type_synonym key = "string \<times> int \<times> int"
type_synonym est = "model \<times> key set"

text \<open>
  The recursion of \<open>evaluateCell\<close> through \<open>evalRef\<close> and \<open>sumRange\<close> is bounded by fuel:
  \<open>None\<close> is "out of fuel". The helpers take the recursive call as the argument \<open>ev\<close>.
\<close>

type_synonym evaluator = "string \<Rightarrow> int \<Rightarrow> int \<Rightarrow> est \<Rightarrow> (jsval outcome \<times> est) option"

definition getCell :: "string \<Rightarrow> int \<Rightarrow> int \<Rightarrow> model \<Rightarrow> Cell option outcome \<times> model" where
  "getCell nm r c m =
     (case ensureSize nm (r + 1) (c + 1) m of
        (Throws e, m1) \<Rightarrow> (Throws e, m1)
      | (Returns u, m1) \<Rightarrow>
         (case getSheet nm m1 of
            Throws e \<Rightarrow> (Throws e, m1)
          | Returns s \<Rightarrow> (readCell (rows s) r c, m1)))"

text \<open>
  \<open>cell.value = v\<close> on the cell object that \<open>getCell(sheet, r, c)\<close> returned: during an
  evaluation cell objects are only mutated in place and never moved, so the object is
  the one at \<open>(r, c)\<close> of the sheet.
\<close>

definition setCellValue :: "string \<Rightarrow> int \<Rightarrow> int \<Rightarrow> jsval \<Rightarrow> model \<Rightarrow> model" where
  "setCellValue nm r c v m =
     (case map_of (sheets m) nm of
        None \<Rightarrow> m
      | Some s \<Rightarrow>
         putSheet nm
           (s\<lparr>rows := (rows s)[nat r := (rows s ! nat r)[nat c :=
                map_option (\<lambda>x. x\<lparr>val := v\<rparr>) (rows s ! nat r ! nat c)]]\<rparr>) m)"

definition evalRef :: "js \<Rightarrow> evaluator \<Rightarrow> string \<Rightarrow> string \<Rightarrow> est \<Rightarrow> (jsval outcome \<times> est) option" where
  "evalRef J ev nm a1 st =
     (case a1ToRc a1 of
        Inl e \<Rightarrow> Some (Throws e, st)
      | Inr (r, c) \<Rightarrow>
         (case ev nm r c st of
            None \<Rightarrow> None
          | Some (Throws e, st1) \<Rightarrow> Some (Throws e, st1)
          | Some (Returns v, st1) \<Rightarrow>
             (case v of
                Str s \<Rightarrow> Some (Returns (Str s), st1)
              | Num n \<Rightarrow> Some (Returns (Num n), st1)
              | Null \<Rightarrow> Some (Returns (Num (Finite 0)), st1)
              | Undefined \<Rightarrow>
                 Some (Returns (Num (if isNaN (toNumber J v) then Finite 0 else toNumber J v)), st1))))"

text \<open>The two nested loops of \<open>sumRange\<close>, over the cells in row-major order.\<close>

fun sumCells ::
  "js \<Rightarrow> evaluator \<Rightarrow> string \<Rightarrow> (int \<times> int) list \<Rightarrow> jsnum \<Rightarrow> est \<Rightarrow> (jsnum outcome \<times> est) option" where
  "sumCells J ev nm [] tot st = Some (Returns tot, st)"
| "sumCells J ev nm ((r, c) # ps) tot st =
     (case ev nm r c st of
        None \<Rightarrow> None
      | Some (Throws e, st1) \<Rightarrow> Some (Throws e, st1)
      | Some (Returns v, st1) \<Rightarrow>
         (let n = (case v of Num x \<Rightarrow> x | _ \<Rightarrow> toNumber J v)
          in sumCells J ev nm ps (if isNaN n then tot else js_add J tot n) st1))"

definition sumRange :: "js \<Rightarrow> evaluator \<Rightarrow> string \<Rightarrow> string \<Rightarrow> est \<Rightarrow> (jsnum outcome \<times> est) option" where
  "sumRange J ev nm a1range st =
     (case matchRange a1range of
        None \<Rightarrow> Some (Returns (Finite 0), st)
      | Some (ta, tb) \<Rightarrow>
         (case a1ToRc ta of
            Inl e \<Rightarrow> Some (Throws e, st)
          | Inr (ar, ac) \<Rightarrow>
             (case a1ToRc tb of
                Inl e \<Rightarrow> Some (Throws e, st)
              | Inr (br, bc) \<Rightarrow>
                 sumCells J ev nm
                   (concat (map (\<lambda>r. map (\<lambda>c. (r, c)) [min ac bc .. max ac bc]) [min ar br .. max ar br]))
                   (Finite 0) st)))"

definition sumTerm :: "js \<Rightarrow> evaluator \<Rightarrow> string \<Rightarrow> string \<Rightarrow> est \<Rightarrow> (jsval outcome \<times> est) option" where
  "sumTerm J ev nm term0 st =
     (let term = trim term0
      in if matchRange term \<noteq> None then
           (case sumRange J ev nm term st of
              None \<Rightarrow> None
            | Some (Throws e, st1) \<Rightarrow> Some (Throws e, st1)
            | Some (Returns n, st1) \<Rightarrow> Some (Returns (Num n), st1))
         else if matchA1 term \<noteq> None then evalRef J ev nm term st
         else (let n = js_Number J (filter (\<lambda>x. x \<noteq> CHR '','') term)
               in Some (Returns (Num (if isFinite n then n else Finite 0)), st)))"

text \<open>The loop of \<open>sumArgs\<close> over the terms, with the running total.\<close>

fun sumTerms ::
  "js \<Rightarrow> evaluator \<Rightarrow> string \<Rightarrow> string list \<Rightarrow> jsnum \<Rightarrow> est \<Rightarrow> (jsval outcome \<times> est) option" where
  "sumTerms J ev nm [] tot st = Some (Returns (Num tot), st)"
| "sumTerms J ev nm (t # ts) tot st =
     (case sumTerm J ev nm t st of
        None \<Rightarrow> None
      | Some (Throws e, st1) \<Rightarrow> Some (Throws e, st1)
      | Some (Returns v, st1) \<Rightarrow>
         (case v of
            Str s \<Rightarrow> Some (Returns (Str s), st1)
          | _ \<Rightarrow> sumTerms J ev nm ts (js_add J tot (toNumber J v)) st1))"

definition sumArgs :: "js \<Rightarrow> evaluator \<Rightarrow> string \<Rightarrow> string \<Rightarrow> est \<Rightarrow> (jsval outcome \<times> est) option" where
  "sumArgs J ev nm args st = sumTerms J ev nm (splitOn (CHR '','') args) (Finite 0) st"

text \<open>The calls of the replacer function on the matches, in order.\<close>

fun replaceHits ::
  "(string \<Rightarrow> est \<Rightarrow> (string outcome \<times> est) option) \<Rightarrow> seg list \<Rightarrow> est \<Rightarrow> (string outcome \<times> est) option" where
  "replaceHits f [] st = Some (Returns [], st)"
| "replaceHits f (Lit x # segs) st =
     (case replaceHits f segs st of
        None \<Rightarrow> None
      | Some (Throws e, st1) \<Rightarrow> Some (Throws e, st1)
      | Some (Returns s, st1) \<Rightarrow> Some (Returns (x # s), st1))"
| "replaceHits f (Hit a # segs) st =
     (case f a st of
        None \<Rightarrow> None
      | Some (Throws e, st1) \<Rightarrow> Some (Throws e, st1)
      | Some (Returns t, st1) \<Rightarrow>
         (case replaceHits f segs st1 of
            None \<Rightarrow> None
          | Some (Throws e, st2) \<Rightarrow> Some (Throws e, st2)
          | Some (Returns s, st2) \<Rightarrow> Some (Returns (t @ s), st2)))"

definition asString :: "js \<Rightarrow> (jsval outcome \<times> est) option \<Rightarrow> (string outcome \<times> est) option" where
  "asString J x =
     (case x of
        None \<Rightarrow> None
      | Some (Throws e, st) \<Rightarrow> Some (Throws e, st)
      | Some (Returns v, st) \<Rightarrow> Some (Returns (toString J v), st))"

text \<open>
  The two \<open>replace\<close> passes of \<open>evaluateCell\<close>: the \<open>SUM(...)\<close> calls first, then the cell
  references left in the result.
\<close>

definition substitute :: "js \<Rightarrow> evaluator \<Rightarrow> string \<Rightarrow> string \<Rightarrow> est \<Rightarrow> (string outcome \<times> est) option" where
  "substitute J ev nm expr st =
     (case replaceHits (\<lambda>args st'. asString J (sumArgs J ev nm args st')) (sumScan 0 expr) st of
        None \<Rightarrow> None
      | Some (Throws e, st1) \<Rightarrow> Some (Throws e, st1)
      | Some (Returns expr1, st1) \<Rightarrow>
         replaceHits (\<lambda>a1 st'. asString J (evalRef J ev nm a1 st')) (refScan False 0 expr1) st1)"

text \<open>The end of \<open>evaluateCell\<close>, from the residual expression on.\<close>

definition finish :: "js \<Rightarrow> string \<Rightarrow> int \<Rightarrow> int \<Rightarrow> string \<Rightarrow> est \<Rightarrow> jsval outcome \<times> est" where
  "finish J nm r c expr st =
     (if strIncludes ''#REF!'' expr \<or> strIncludes ''#ERROR!'' expr then
        (let v = (if strIncludes ''#REF!'' expr then Str ''#REF!'' else Str ''#ERROR!'')
         in (Returns v, (setCellValue nm r c v (fst st), snd st)))
      else
        (let v = (case js_run J expr of
                    Threw \<Rightarrow> Str ''#ERROR!''
                  | GaveNumber n \<Rightarrow> Num n
                  | GaveOther n \<Rightarrow> Num (if isNaN n then Finite 0 else n))
         in (Returns v, (setCellValue nm r c v (fst st), snd st))))"

definition evaluateCellBody ::
  "js \<Rightarrow> evaluator \<Rightarrow> string \<Rightarrow> int \<Rightarrow> int \<Rightarrow> est \<Rightarrow> (jsval outcome \<times> est) option" where
  "evaluateCellBody J ev nm r c st =
     (if (nm, r, c) \<in> snd st then
        (case getCell nm r c (fst st) of
           (Throws e, m1) \<Rightarrow> Some (Throws e, (m1, snd st))
         | (Returns None, m1) \<Rightarrow> Some (Throws TypeError, (m1, snd st))
         | (Returns (Some cell), m1) \<Rightarrow>
            Some (Returns (Str ''#REF!''), (setCellValue nm r c (Str ''#REF!'') m1, snd st)))
      else
        (let seen = insert (nm, r, c) (snd st)
         in (case getCell nm r c (fst st) of
               (Throws e, m1) \<Rightarrow> Some (Throws e, (m1, seen))
             | (Returns None, m1) \<Rightarrow> Some (Throws TypeError, (m1, seen))
             | (Returns (Some cell), m1) \<Rightarrow>
                (case formula cell of
                   None \<Rightarrow> Some (Returns (orNull (val cell)), (m1, seen))
                 | Some ftext \<Rightarrow>
                    (if ftext = [] then Some (Returns (orNull (val cell)), (m1, seen))
                     else (let f = trim ftext
                           in if \<not> startsWith ''='' f then Some (Returns (orNull (val cell)), (m1, seen))
                              else
                                (case substitute J ev nm (drop 1 f) (m1, seen) of
                                   None \<Rightarrow> None
                                 | Some (Throws e, st2) \<Rightarrow> Some (Throws e, st2)
                                 | Some (Returns expr2, st2) \<Rightarrow>
                                    Some (finish J nm r c expr2 st2))))))))"

fun evaluateCell :: "js \<Rightarrow> nat \<Rightarrow> evaluator" where
  "evaluateCell J 0 nm r c st = None"
| "evaluateCell J (Suc n) nm r c st = evaluateCellBody J (evaluateCell J n) nm r c st"

text \<open>
  The loops of \<open>evaluateAll\<close> over one sheet read \<open>s.rows.length\<close> and
  \<open>s.rows[r].length\<close> afresh at every test, and an evaluation may have grown the grid in
  between: the loop is bounded by fuel as well. \<open>k\<close> is the key under which the sheet
  object \<open>s\<close> is stored.
\<close>

fun evaluateSheet :: "js \<Rightarrow> nat \<Rightarrow> string \<Rightarrow> nat \<Rightarrow> nat \<Rightarrow> model \<Rightarrow> (unit outcome \<times> model) option" where
  "evaluateSheet J 0 k r c m = None"
| "evaluateSheet J (Suc n) k r c m =
     (case map_of (sheets m) k of
        None \<Rightarrow> Some (Returns (), m)
      | Some s \<Rightarrow>
         (if r < length (rows s) then
            (if c < length (rows s ! r) then
               (case evaluateCell J n (name s) (int r) (int c) (m, {}) of
                  None \<Rightarrow> None
                | Some (Throws e, st1) \<Rightarrow> Some (Throws e, fst st1)
                | Some (Returns v, st1) \<Rightarrow> evaluateSheet J n k r (Suc c) (fst st1))
             else evaluateSheet J n k (Suc r) 0 m)
          else Some (Returns (), m)))"

fun evaluateSheets :: "js \<Rightarrow> nat \<Rightarrow> string list \<Rightarrow> model \<Rightarrow> (unit outcome \<times> model) option" where
  "evaluateSheets J n [] m = Some (Returns (), m)"
| "evaluateSheets J n (k # ks) m =
     (case evaluateSheet J n k 0 0 m of
        None \<Rightarrow> None
      | Some (Throws e, m1) \<Rightarrow> Some (Throws e, m1)
      | Some (Returns u, m1) \<Rightarrow> evaluateSheets J n ks m1)"

definition evaluateAll :: "js \<Rightarrow> nat \<Rightarrow> model \<Rightarrow> (unit outcome \<times> model) option" where
  "evaluateAll J n m = evaluateSheets J n (map fst (sheets m)) m"

subsection \<open>Import and construction\<close>

text \<open>
  The shape \<open>loadFromJSON\<close> accepts: a cell may be \<open>null\<close> (\<open>None\<close>), as may a row; an
  absent \<open>value\<close> is \<open>Undefined\<close>, and a provenance array comes by value.
\<close>

record CellIn =
  in_value :: jsval
  in_formula :: "string option"
  in_format :: "string option"
  in_provenance :: "prov list option"

record SheetIn =
  in_name :: string
  in_rows :: "CellIn option list option list"

definition loadCell :: "CellIn option \<Rightarrow> prov list list \<Rightarrow> Cell \<times> prov list list" where
  "loadCell x st =
     (case x of
        None \<Rightarrow> (\<lparr>val = Null, formula = None, format = None, provenance = None\<rparr>, st)
      | Some ci \<Rightarrow>
         (case in_provenance ci of
            None \<Rightarrow>
              (\<lparr>val = orNull (in_value ci), formula = in_formula ci, format = in_format ci,
                provenance = None\<rparr>, st)
          | Some ps \<Rightarrow>
              (\<lparr>val = orNull (in_value ci), formula = in_formula ci, format = in_format ci,
                provenance = Some (length st)\<rparr>, st @ [ps])))"

fun loadRow :: "CellIn option list \<Rightarrow> prov list list \<Rightarrow> Cell option list \<times> prov list list" where
  "loadRow [] st = ([], st)"
| "loadRow (x # xs) st =
     (case loadCell x st of
        (cell, st1) \<Rightarrow> (case loadRow xs st1 of (cells, st2) \<Rightarrow> (Some cell # cells, st2)))"

fun loadRows :: "CellIn option list option list \<Rightarrow> prov list list \<Rightarrow> grid \<times> prov list list" where
  "loadRows [] st = ([], st)"
| "loadRows (row # rest) st =
     (case loadRow (case row of None \<Rightarrow> [] | Some xs \<Rightarrow> xs) st of
        (cells, st1) \<Rightarrow> (case loadRows rest st1 of (g, st2) \<Rightarrow> (cells # g, st2)))"

fun loadSheets :: "SheetIn list \<Rightarrow> model \<Rightarrow> model" where
  "loadSheets [] m = m"
| "loadSheets (s # rest) m =
     (case loadRows (in_rows s) (store m) of
        (g, st1) \<Rightarrow>
          loadSheets rest
            (m\<lparr>sheets := AList.update (in_name s) \<lparr>name = in_name s, rows = g\<rparr> (sheets m),
               store := st1\<rparr>))"

definition loadFromJSON :: "js \<Rightarrow> nat \<Rightarrow> SheetIn list \<Rightarrow> model \<Rightarrow> (unit outcome \<times> model) option" where
  "loadFromJSON J n workbookData m =
     (let m1 = loadSheets workbookData (m\<lparr>sheets := []\<rparr>)
      in (case (if length (sheets m1) = 0 then createSheet ''Sheet1'' m1 else (Returns (), m1)) of
            (Throws e, m2) \<Rightarrow> Some (Throws e, m2)
          | (Returns u, m2) \<Rightarrow>
             evaluateAll J n (checkpoint ''import'' (m2\<lparr>events := [], checkpoints := []\<rparr>))))"

text \<open>\<open>new SheetModel()\<close>.\<close>

definition emptyModel :: model where
  "emptyModel = \<lparr>sheets = [], checkpoints = [], events = [], store = []\<rparr>"

definition newSheetModel :: "unit outcome \<times> model" where
  "newSheetModel =
     (case createSheet ''Sheet1'' emptyModel of
        (Throws e, m1) \<Rightarrow> (Throws e, m1)
      | (Returns u, m1) \<Rightarrow> (Returns (), checkpoint ''init'' m1))"

subsection \<open>A sample runtime\<close>

text \<open>
  An instance of the runtime parameters for running the model on examples. It agrees
  with JavaScript on the inputs the examples use: \<open>Number\<close> on a string that is empty or
  decimal digits after trimming, \<open>String\<close> on integers, infinities and NaN, exact addition
  of integers, and the run of an expression that is a decimal integer or two decimal
  integers around one of \<open>+ - * /\<close>. It is not meant to agree elsewhere.
\<close>

definition sampleNumber :: "string \<Rightarrow> jsnum" where
  "sampleNumber s =
     (let t = trim s
      in if t = [] then Finite 0
         else if list_all isDigit t then Finite (of_int (parseInt t))
         else NaN)"

fun sampleString :: "jsnum \<Rightarrow> string" where
  "sampleString (Finite q) = intToString \<lfloor>q\<rfloor>"
| "sampleString PosInf = ''Infinity''"
| "sampleString NegInf = ''-Infinity''"
| "sampleString NaN = ''NaN''"

fun sampleAdd :: "jsnum \<Rightarrow> jsnum \<Rightarrow> jsnum" where
  "sampleAdd (Finite a) (Finite b) = Finite (a + b)"
| "sampleAdd NaN y = NaN"
| "sampleAdd x NaN = NaN"
| "sampleAdd PosInf NegInf = NaN"
| "sampleAdd NegInf PosInf = NaN"
| "sampleAdd PosInf y = PosInf"
| "sampleAdd NegInf y = NegInf"
| "sampleAdd x PosInf = PosInf"
| "sampleAdd x NegInf = NegInf"

definition sampleBinary :: "char \<Rightarrow> int \<Rightarrow> int \<Rightarrow> runres" where
  "sampleBinary opr a b =
     (if opr = CHR ''+'' then GaveNumber (Finite (of_int (a + b)))
      else if opr = CHR ''-'' then GaveNumber (Finite (of_int (a - b)))
      else if opr = CHR ''*'' then GaveNumber (Finite (of_int (a * b)))
      else if opr = CHR ''/'' then
        (if b = 0 then GaveNumber (if a = 0 then NaN else PosInf)
         else GaveNumber (Finite (of_int a / of_int b)))
      else Threw)"

definition sampleRun :: "string \<Rightarrow> runres" where
  "sampleRun expr =
     (let ls = takeWhile isDigit expr; rest = dropWhile isDigit expr
      in if ls = [] then Threw
         else (case rest of
                 [] \<Rightarrow> GaveNumber (Finite (of_int (parseInt ls)))
               | opr # ds \<Rightarrow>
                   (if ds \<noteq> [] \<and> list_all isDigit ds then sampleBinary opr (parseInt ls) (parseInt ds)
                    else Threw)))"

definition sampleJs :: js where
  "sampleJs = \<lparr>js_Number = sampleNumber, js_String = sampleString, js_add = sampleAdd,
                js_run = sampleRun\<rparr>"

subsection \<open>Observations used in the statements\<close>

text \<open>The grid of a sheet (empty when there is no such sheet), and the slot at a position.\<close>

definition gridOf :: "model \<Rightarrow> string \<Rightarrow> grid" where
  "gridOf m nm = (case map_of (sheets m) nm of None \<Rightarrow> [] | Some s \<Rightarrow> rows s)"

definition slot :: "grid \<Rightarrow> nat \<Rightarrow> nat \<Rightarrow> Cell option" where
  "slot g r c = (if r < length g \<and> c < length (g ! r) then g ! r ! c else None)"

definition outsideGrid :: "grid \<Rightarrow> nat \<Rightarrow> nat \<Rightarrow> bool" where
  "outsideGrid g r c = (length g \<le> r \<or> length (g ! r) \<le> c)"

text \<open>The op name of a call, that is the \<open>case\<close> label \<open>dispatch\<close> selects.\<close>

fun opName :: "opcall \<Rightarrow> string" where
  "opName (CreateSheet nm) = ''createSheet''"
| "opName (DeleteSheet nm) = ''deleteSheet''"
| "opName (RestoreSheet s) = ''restoreSheet''"
| "opName (SetValues rg vs pr) = ''setValues''"
| "opName (SetFormulas rg fs) = ''setFormulas''"
| "opName (FormatRange rg fmt) = ''formatRange''"
| "opName (SetCells rg cells) = ''setCells''"
| "opName (LinkProvenance rg pr) = ''linkProvenance''"
| "opName Noop = ''noop''"
| "opName (OtherOp s) = s"

text \<open>The calls that record an event: all but \<open>noop\<close> and the unknown op names.\<close>

fun recorded :: "opcall \<Rightarrow> bool" where
  "recorded Noop = False"
| "recorded (OtherOp s) = False"
| "recorded call = True"

text \<open>How a call that ended with outcome \<open>out\<close> has changed the log.\<close>

definition logStep :: "string \<Rightarrow> unit outcome \<Rightarrow> model \<Rightarrow> model \<Rightarrow> bool" where
  "logStep opname out m m' =
     (case out of
        Throws e \<Rightarrow> events m' = events m
      | Returns u \<Rightarrow>
          (\<exists>inver summ. events m' =
             events m @ [\<lparr>ev_op = opname, ev_inverse = inver, ev_summary = summ\<rparr>]))"

text \<open>
  A workbook for the examples: a new model, then \<open>setValues\<close> of "New Value" on A1 of
  Sheet1.
\<close>

definition cellA1 :: RangeRef where
  "cellA1 = \<lparr>sheet = ''Sheet1'', r1 = 0, c1 = 0, r2 = 0, c2 = 0\<rparr>"

definition sampleBook :: model where
  "sampleBook = snd (setValues cellA1 [[Str ''New Value'']] None (snd newSheetModel))"

text \<open>A second \<open>setValues\<close> on the same cell of the sample workbook.\<close>

definition sampleEdit :: "unit outcome \<times> model" where
  "sampleEdit = setValues cellA1 [[Str ''Changed'']] None sampleBook"

subsection \<open>Notions for reasoning about an evaluation\<close>

text \<open>
  \<open>grows g g'\<close>: what an evaluation may do to a grid. No row is lost or shortened, a
  cell keeps everything but its value, and a cell that appears is a default cell, up to
  its value.
\<close>

definition grows :: "grid \<Rightarrow> grid \<Rightarrow> bool" where
  "grows g g' =
     (length g \<le> length g'
      \<and> (\<forall>r. r < length g \<longrightarrow> length (g ! r) \<le> length (g' ! r))
      \<and> (\<forall>r c x. slot g r c = Some x \<longrightarrow> (\<exists>v. slot g' r c = Some (x\<lparr>val := v\<rparr>)))
      \<and> (\<forall>r c y. slot g r c = None \<longrightarrow> slot g' r c = Some y \<longrightarrow>
            (\<exists>v. y = defaultCell\<lparr>val := v\<rparr>)))"

text \<open>The positions of a grid that hold a formula, and those of them not yet visited.\<close>

definition fcells :: "grid \<Rightarrow> (int \<times> int) set" where
  "fcells g = {(int r, int c) | r c. \<exists>x. slot g r c = Some x \<and> formula x \<noteq> None}"

definition todo :: "string \<Rightarrow> est \<Rightarrow> (int \<times> int) set" where
  "todo nm st = {p \<in> fcells (gridOf (fst st) nm). (nm, fst p, snd p) \<notin> snd st}"

text \<open>
  \<open>ext nm st st'\<close>: the state \<open>st'\<close> comes after \<open>st\<close> in an evaluation on sheet \<open>nm\<close>.
\<close>

definition ext :: "string \<Rightarrow> est \<Rightarrow> est \<Rightarrow> bool" where
  "ext nm st st' =
     (map_of (sheets (fst st')) nm \<noteq> None
      \<and> grows (gridOf (fst st) nm) (gridOf (fst st') nm)
      \<and> snd st \<subseteq> snd st'
      \<and> events (fst st') = events (fst st))"

text \<open>
  \<open>tot nm k f\<close>: from a state with the sheet and at most \<open>k\<close> unvisited formula cells,
  the computation \<open>f\<close> does not run out of fuel and ends in a later state.
\<close>

definition tot :: "string \<Rightarrow> nat \<Rightarrow> (est \<Rightarrow> ('a outcome \<times> est) option) \<Rightarrow> bool" where
  "tot nm k f =
     (\<forall>st. map_of (sheets (fst st)) nm \<noteq> None \<and> card (todo nm st) \<le> k \<longrightarrow>
        (\<exists>out st'. f st = Some (out, st') \<and> ext nm st st'))"

text \<open>A workbook whose cell B1 holds a formula that refers to the row below.\<close>

definition cellB1 :: RangeRef where
  "cellB1 = \<lparr>sheet = ''Sheet1'', r1 = 0, c1 = 1, r2 = 0, c2 = 1\<rparr>"

definition sampleRef :: model where
  "sampleRef = snd (setFormulas cellB1 [[Some ''=A2'']] (snd newSheetModel))"

text \<open>A workbook with a circular reference in A1 and a dependent formula in B1.\<close>

definition sampleCycle :: model where
  "sampleCycle =
     snd (setFormulas cellB1 [[Some ''=A1+10'']]
       (snd (setFormulas cellA1 [[Some ''=A1'']] (snd newSheetModel))))"

text \<open>
  The residual expression of the formula \<open>ftext\<close> of the cell at \<open>(r, c)\<close>: what the two
  \<open>replace\<close> passes of \<open>evaluateCell\<close> leave of it, run as \<open>evaluateCell\<close> runs them, in
  the state that \<open>getCell\<close> has padded and with the cell marked as visited.
\<close>

definition residual ::
  "js \<Rightarrow> nat \<Rightarrow> string \<Rightarrow> int \<Rightarrow> int \<Rightarrow> string \<Rightarrow> est \<Rightarrow> (string outcome \<times> est) option" where
  "residual J k nm r c ftext st =
     substitute J (evaluateCell J k) nm (drop 1 (trim ftext))
       (snd (getCell nm r c (fst st)), insert (nm, r, c) (snd st))"

text \<open>Workbooks whose cell A1 divides by zero, and holds a malformed expression.\<close>

definition sampleDiv :: model where
  "sampleDiv = snd (setFormulas cellA1 [[Some ''=1/0'']] (snd newSheetModel))"

definition sampleBad :: model where
  "sampleBad = snd (setFormulas cellA1 [[Some ''=1+/2'']] (snd newSheetModel))"

section \<open>Verification\<close>

subsection \<open>Round trip of the address codec\<close>

declare colLetters.simps [simp del]
declare digitsOf.simps [simp del]

lemma colLetters_acc: "colLetters n s = colLetters n [] @ s"
proof (induction "nat n" arbitrary: n s rule: less_induct)
  case less
  show ?case
  proof (cases "n > 0")
    case True
    define m where "m = (n - 1) div 26"
    define ch where "ch = char_of (nat (65 + (n - 1) mod 26))"
    have lt: "nat m < nat n" using True unfolding m_def by simp
    have "colLetters n s = colLetters m (ch # s)"
      using True unfolding m_def ch_def by (subst colLetters.simps) simp
    also have "\<dots> = colLetters m [] @ ch # s" by (rule less [OF lt])
    also have "\<dots> = (colLetters m [] @ [ch]) @ s" by simp
    also have "colLetters m [] @ [ch] = colLetters m [ch]" by (rule less [OF lt, symmetric])
    also have "colLetters m [ch] = colLetters n []"
      using True unfolding m_def ch_def by (subst (2) colLetters.simps) simp
    finally show ?thesis .
  next
    case False
    then show ?thesis by (simp add: colLetters.simps)
  qed
qed

lemma colLetters_step:
  "n > 0 \<Longrightarrow> colLetters n [] = colLetters ((n - 1) div 26) [] @ [char_of (nat (65 + (n - 1) mod 26))]"
  by (subst colLetters.simps, subst colLetters_acc) simp

lemma colLetters_nonpos: "n \<le> 0 \<Longrightarrow> colLetters n [] = []"
  by (simp add: colLetters.simps)

lemma letter_code:
  assumes "0 \<le> k" "k < 26"
  shows "(of_char (char_of (nat (65 + k))) :: nat) = nat (65 + k)"
  using assms by simp

lemma colLetters_upper: "list_all isUpper (colLetters n [])"
proof (induction "nat n" arbitrary: n rule: less_induct)
  case less
  show ?case
  proof (cases "n > 0")
    case True
    have lt: "nat ((n - 1) div 26) < nat n" using True by simp
    have "isUpper (char_of (nat (65 + (n - 1) mod 26)))"
    proof -
      have "0 \<le> (n - 1) mod 26" "(n - 1) mod 26 < 26" by simp_all
      then show ?thesis unfolding isUpper_def by (simp add: letter_code) linarith
    qed
    then show ?thesis using less [OF lt] True by (simp add: colLetters_step)
  next
    case False
    then show ?thesis by (simp add: colLetters_nonpos)
  qed
qed

lemma colLetters_value:
  "0 \<le> n \<Longrightarrow> foldl (\<lambda>col ch. col * 26 + (int (of_char ch) - 64)) 0 (colLetters n []) = n"
proof (induction "nat n" arbitrary: n rule: less_induct)
  case less
  show ?case
  proof (cases "n > 0")
    case True
    have lt: "nat ((n - 1) div 26) < nat n" using True by simp
    have nn: "0 \<le> (n - 1) div 26" using True by simp
    have "int (of_char (char_of (nat (65 + (n - 1) mod 26))) :: nat) = 65 + (n - 1) mod 26"
      by (simp add: letter_code)
    then show ?thesis using less(1) [OF lt nn] True
      by (simp add: colLetters_step)
  next
    case False
    then show ?thesis using less by (simp add: colLetters_nonpos)
  qed
qed

lemma colLetters_nonempty: "0 < n \<Longrightarrow> colLetters n [] \<noteq> []"
  by (simp add: colLetters_step)

lemma digitsOf_digits: "list_all isDigit (digitsOf n)"
proof (induction n rule: digitsOf.induct)
  case (1 n)
  show ?case
  proof (cases "n < 10")
    case True
    then show ?thesis by (subst digitsOf.simps) (simp add: isDigit_def)
  next
    case False
    have "isDigit (char_of (48 + n mod 10))" by (simp add: isDigit_def)
    then show ?thesis using False 1 by (subst digitsOf.simps) simp
  qed
qed

lemma digitsOf_nonempty: "digitsOf n \<noteq> []"
  by (subst digitsOf.simps) simp

lemma parseInt_digitsOf: "parseInt (digitsOf n) = int n"
proof (induction n rule: digitsOf.induct)
  case (1 n)
  show ?case
  proof (cases "n < 10")
    case True
    then show ?thesis by (subst digitsOf.simps) (simp add: parseInt_def)
  next
    case False
    have "parseInt (digitsOf (n div 10)) = int (n div 10)" using False 1 by simp
    moreover have "int (n div 10) * 10 + int (n mod 10) = int n"
      by (metis mult.commute of_nat_add of_nat_mult of_nat_numeral div_mult_mod_eq mult.commute)
    ultimately show ?thesis using False
      by (subst digitsOf.simps) (simp add: parseInt_def)
  qed
qed

lemma upper_alpha: "isUpper ch \<Longrightarrow> isAlpha ch"
  by (simp add: isAlpha_def)

lemma digit_not_alpha: "isDigit ch \<Longrightarrow> \<not> isAlpha ch"
  by (auto simp: isAlpha_def isDigit_def isUpper_def isLower_def)

lemma upper_toUpperCase: "isUpper ch \<Longrightarrow> toUpperCase ch = ch"
  by (auto simp: toUpperCase_def isUpper_def isLower_def)

lemma matchA1_append:
  assumes "list_all isUpper ls" "ls \<noteq> []" "list_all isDigit ds" "ds \<noteq> []"
  shows "matchA1 (ls @ ds) = Some (ls, ds)"
proof -
  have a: "\<forall>x\<in>set ls. isAlpha x" using assms(1) by (simp add: list_all_iff upper_alpha)
  obtain d ds' where d: "ds = d # ds'" using assms(4) by (cases ds) auto
  have nd: "\<not> isAlpha d" using assms(3) d by (simp add: digit_not_alpha)
  have t: "takeWhile isAlpha (ls @ ds) = ls"
    using a nd d by (simp add: takeWhile_append2)
  have dr: "dropWhile isAlpha (ls @ ds) = ds"
    using a nd d by (simp add: dropWhile_append2)
  show ?thesis unfolding matchA1_def using t dr assms by simp
qed

lemma a1ToRc_rcToA1_all:
  assumes "0 \<le> r" "0 \<le> c"
  shows "a1ToRc (rcToA1 r c) = Inr (r, c)"
proof -
  let ?ls = "colLetters (c + 1) []"
  let ?ds = "digitsOf (nat (r + 1))"
  have rc: "rcToA1 r c = ?ls @ ?ds" using assms by (simp add: rcToA1_def intToString_def)
  have m: "matchA1 (?ls @ ?ds) = Some (?ls, ?ds)"
    using assms by (intro matchA1_append colLetters_upper colLetters_nonempty digitsOf_digits digitsOf_nonempty) simp
  have up: "map toUpperCase ?ls = ?ls"
    using colLetters_upper [of "c + 1"] by (simp add: list_all_iff upper_toUpperCase map_idI)
  have col: "foldl (\<lambda>col ch. col * 26 + (int (of_char ch) - 64)) 0 ?ls = c + 1"
    using assms by (simp add: colLetters_value)
  have row: "parseInt ?ds = r + 1" using assms by (simp add: parseInt_digitsOf)
  show ?thesis unfolding rc a1ToRc_def m by (simp add: up col row)
qed

lemma char_of_A: "char_of (65::nat) = CHR ''A''"
  by code_simp

lemma colLetters_A: "colLetters 1 [] = ''A''"
  by (simp add: colLetters.simps char_of_A)

lemma colLetters_Z: "colLetters 26 [] = ''Z''"
  by code_simp

lemma colLetters_AA: "colLetters 27 [] = ''AA''"
  by code_simp

text \<open>
  C1. For every column \<open>c\<close> in [0,700] and row \<open>r\<close> in [0,10000], decoding the text that
  \<open>rcToA1\<close> gives for \<open>(r, c)\<close> with \<open>a1ToRc\<close> returns \<open>(r, c)\<close>; the column letters are
  "A" for column 0, "Z" for column 25 and "AA" for column 26, followed by the decimal
  row number \<open>r + 1\<close>.
\<close>

theorem address_roundtrip:
  assumes "0 \<le> c" "c \<le> 700" "0 \<le> r" "r \<le> 10000"
  shows "a1ToRc (rcToA1 r c) = Inr (r, c)
       \<and> rcToA1 r 0 = ''A'' @ intToString (r + 1)
       \<and> rcToA1 r 25 = ''Z'' @ intToString (r + 1)
       \<and> rcToA1 r 26 = ''AA'' @ intToString (r + 1)"
proof -
  have "a1ToRc (rcToA1 r c) = Inr (r, c)"
    using assms by (simp add: a1ToRc_rcToA1_all)
  moreover have "rcToA1 r 0 = ''A'' @ intToString (r + 1)"
    by (simp add: rcToA1_def colLetters_A)
  moreover have "rcToA1 r 25 = ''Z'' @ intToString (r + 1)"
    by (simp add: rcToA1_def colLetters_Z)
  moreover have "rcToA1 r 26 = ''AA'' @ intToString (r + 1)"
    by (simp add: rcToA1_def colLetters_AA)
  ultimately show ?thesis by simp
qed

lemma intToString_10: "intToString 10 = ''10''"
  by code_simp

theorem address_roundtrip_witness:
  "(0::int) \<le> 25 \<and> (25::int) \<le> 700 \<and> (0::int) \<le> 9 \<and> (9::int) \<le> 10000
   \<and> a1ToRc (rcToA1 9 25) = Inr (9, 25)
   \<and> rcToA1 9 0 = ''A10'' \<and> rcToA1 9 25 = ''Z10'' \<and> rcToA1 9 26 = ''AA10''"
proof -
  have t: "a1ToRc (rcToA1 9 25) = Inr (9, 25)
       \<and> rcToA1 9 0 = ''A'' @ intToString (9 + 1)
       \<and> rcToA1 9 25 = ''Z'' @ intToString (9 + 1)
       \<and> rcToA1 9 26 = ''AA'' @ intToString (9 + 1)"
    by (rule address_roundtrip [of 25 9]) simp_all
  have a: "a1ToRc (rcToA1 9 25) = Inr (9, 25)" using t by (rule conjunct1)
  have b: "rcToA1 9 0 = ''A10''" "rcToA1 9 25 = ''Z10''" "rcToA1 9 26 = ''AA10''"
    using t by (simp_all add: intToString_10)
  show ?thesis using a b by simp
qed

subsection \<open>Sheet creation, deletion and import\<close>

text \<open>
  C8. \<open>createSheet(name)\<close> throws the "Sheet exists" error (DuplicateSheet) when a sheet of
  that name exists, and \<open>deleteSheet(name)\<close> throws the "Sheet not found" error
  (SheetNotFound) when none does; in both cases the whole state, and so the sheet map and
  the event log, is what it was before the call.
\<close>

theorem create_delete_errors:
  "(map_of (sheets m) nm \<noteq> None \<longrightarrow> createSheet nm m = (Throws SheetExists, m))
   \<and> (map_of (sheets m) nm = None \<longrightarrow> deleteSheet nm m = (Throws (SheetNotFound nm), m))"
  by (simp add: createSheet_def deleteSheet_def getSheet_def)

lemma createSheet_X: "createSheet ''X'' emptyModel =
  (Returns (), \<lparr>sheets = [(''X'', \<lparr>name = ''X'', rows = []\<rparr>)], checkpoints = [],
     events = [\<lparr>ev_op = ''createSheet'', ev_inverse = DeleteSheet ''X'', ev_summary = ''create X''\<rparr>],
     store = []\<rparr>)"
  by (simp add: createSheet_def emptyModel_def appendEvent_def)

theorem create_delete_errors_witness:
  "createSheet ''X'' (snd (createSheet ''X'' emptyModel))
     = (Throws SheetExists, snd (createSheet ''X'' emptyModel))
   \<and> deleteSheet ''Ghost'' (snd (createSheet ''X'' emptyModel))
     = (Throws (SheetNotFound ''Ghost''), snd (createSheet ''X'' emptyModel))"
  using create_delete_errors [of "snd (createSheet ''X'' emptyModel)" "''X''"]
    create_delete_errors [of "snd (createSheet ''X'' emptyModel)" "''Ghost''"]
  by (simp add: createSheet_X)

text \<open>
  C9. Importing a workbook whose sheet list is empty leaves exactly one sheet, the default
  "Sheet1" with no rows, an empty event log and exactly one checkpoint, the "import"
  checkpoint taken at log length 0; whatever events and checkpoints the workbook had
  before are gone. The import returns for every positive amount of fuel.
\<close>

theorem import_empty:
  "loadFromJSON J (Suc n) [] m =
     Some (Returns (),
           \<lparr>sheets = [(''Sheet1'', \<lparr>name = ''Sheet1'', rows = []\<rparr>)],
            checkpoints = [\<lparr>cp_id = ''import'', atEvent = 0\<rparr>],
            events = [],
            store = store m\<rparr>)"
  by (simp add: loadFromJSON_def createSheet_def appendEvent_def checkpoint_def evaluateAll_def)

subsection \<open>The event log\<close>

lemma forEach_preserves:
  assumes step: "\<And>x m out m'. P m \<Longrightarrow> f x m = (out, m') \<Longrightarrow> P m'"
    and "P m" and "forEach xs f m = (out, m')"
  shows "P m'"
  using assms(2,3)
proof (induction xs arbitrary: m)
  case Nil
  then show ?case by simp
next
  case (Cons x xs)
  obtain o1 m1 where f: "f x m = (o1, m1)" by (cases "f x m")
  have p1: "P m1" using step [OF Cons.prems(1) f] .
  show ?case
  proof (cases o1)
    case (Returns u)
    then have "forEach xs f m1 = (out, m')" using Cons.prems(2) f by simp
    then show ?thesis using Cons.IH [OF p1] by simp
  next
    case (Throws e)
    then have "m' = m1" using Cons.prems(2) f by simp
    then show ?thesis using p1 by simp
  qed
qed

lemma putSheet_events [simp]: "events (putSheet nm s m) = events m"
  by (simp add: putSheet_def)

lemma ensureSize_events: "ensureSize nm a b m = (out, m') \<Longrightarrow> events m' = events m"
  by (auto simp: ensureSize_def split: outcome.splits)

lemma snapshot_events: "snapshot rg m = (out, m') \<Longrightarrow> events m' = events m"
  by (auto simp: snapshot_def split: outcome.splits prod.splits dest: ensureSize_events)

lemma setValuesCell_events: "setValuesCell nm rr cc v pr m = (out, m') \<Longrightarrow> events m' = events m"
  by (auto simp: setValuesCell_def Let_def split: outcome.splits option.splits)

lemma setCellsCell_events: "setCellsCell nm rr cc x m = (out, m') \<Longrightarrow> events m' = events m"
  by (auto simp: setCellsCell_def split: outcome.splits)

lemma setFormulasCell_events: "setFormulasCell nm rr cc f m = (out, m') \<Longrightarrow> events m' = events m"
  by (auto simp: setFormulasCell_def split: outcome.splits)

lemma formatRangeCell_events: "formatRangeCell nm rr cc f m = (out, m') \<Longrightarrow> events m' = events m"
  by (auto simp: formatRangeCell_def split: outcome.splits)

lemma linkProvenanceCell_events: "linkProvenanceCell nm rr cc pr m = (out, m') \<Longrightarrow> events m' = events m"
  by (auto simp: linkProvenanceCell_def split: outcome.splits option.splits)

lemma forEach_events:
  assumes cell: "\<And>x m out m'. f x m = (out, m') \<Longrightarrow> events m' = events m"
    and run: "forEach xs f m = (out, m')"
  shows "events m' = events m"
  by (rule forEach_preserves [where P = "\<lambda>k. events k = events m" and f = f, OF _ _ run])
     (simp_all add: cell)

lemma enumLoop_events:
  assumes cell: "\<And>r c v m out m'. g r c v m = (out, m') \<Longrightarrow> events m' = events m"
    and run: "forEach (List.enumerate 0 vs) (\<lambda>(r, vrow). forEach (List.enumerate 0 vrow)
          (\<lambda>(c, v). g r c v)) m = (out, m')"
  shows "events m' = events m"
proof (rule forEach_events [OF _ run])
  fix x k o1 k'
  assume "(case x of (r, vrow) \<Rightarrow> forEach (List.enumerate 0 vrow) (\<lambda>(c, v). g r c v)) k = (o1, k')"
  then have "forEach (List.enumerate 0 (snd x)) (\<lambda>(c, v). g (fst x) c v) k = (o1, k')"
    by (simp add: case_prod_unfold)
  then show "events k' = events k"
  proof (rule forEach_events [rotated])
    fix y j o2 j'
    assume "(case y of (c, v) \<Rightarrow> g (fst x) c v) j = (o2, j')"
    then show "events j' = events j"
      by (cases y) (simp add: cell)
  qed
qed

lemma rangeLoop_events:
  assumes cell: "\<And>r c m out m'. g r c m = (out, m') \<Longrightarrow> events m' = events m"
    and run: "forEach rs (\<lambda>r. forEach cs (\<lambda>c. g r c)) m = (out, m')"
  shows "events m' = events m"
proof (rule forEach_events [OF _ run])
  fix r k o1 k'
  assume "forEach cs (\<lambda>c. g r c) k = (o1, k')"
  then show "events k' = events k"
    by (rule forEach_events [rotated]) (rule cell)
qed

lemma createSheet_log: "createSheet nm m = (out, m') \<Longrightarrow> logStep ''createSheet'' out m m'"
  by (auto simp: createSheet_def logStep_def appendEvent_def split: if_splits)

lemma deleteSheet_log: "deleteSheet nm m = (out, m') \<Longrightarrow> logStep ''deleteSheet'' out m m'"
  by (auto simp: deleteSheet_def logStep_def appendEvent_def split: outcome.splits)

lemma restoreSheet_log: "restoreSheet s m = (out, m') \<Longrightarrow> logStep ''restoreSheet'' out m m'"
  by (auto simp: restoreSheet_def logStep_def appendEvent_def)

lemma setValues_cases:
  assumes "setValues rg vs pr m = (out, m')"
  obtains (snapThrows) e where "snapshot rg m = (Throws e, m')" "out = Throws e"
  | (sizeThrows) e snap m1 where "snapshot rg m = (Returns snap, m1)"
      "ensureSize (sheet rg) (int (r2 rg) + 1) (int (c2 rg) + 1) m1 = (Throws e, m')" "out = Throws e"
  | (loopThrows) e snap m1 m2 where "snapshot rg m = (Returns snap, m1)"
      "ensureSize (sheet rg) (int (r2 rg) + 1) (int (c2 rg) + 1) m1 = (Returns (), m2)"
      "forEach (List.enumerate 0 vs) (\<lambda>(r, vrow). forEach (List.enumerate 0 vrow)
          (\<lambda>(c, v). setValuesCell (sheet rg) (r1 rg + r) (c1 rg + c) v pr)) m2 = (Throws e, m')"
      "out = Throws e"
  | (returns) snap m1 m2 m3 where "snapshot rg m = (Returns snap, m1)"
      "ensureSize (sheet rg) (int (r2 rg) + 1) (int (c2 rg) + 1) m1 = (Returns (), m2)"
      "forEach (List.enumerate 0 vs) (\<lambda>(r, vrow). forEach (List.enumerate 0 vrow)
          (\<lambda>(c, v). setValuesCell (sheet rg) (r1 rg + r) (c1 rg + c) v pr)) m2 = (Returns (), m3)"
      "out = Returns ()"
      "m' = appendEvent ''setValues'' (SetCells rg snap)
              (''setValues '' @ sheet rg @ ''!'' @ rcToA1 (int (r1 rg)) (int (c1 rg))) m3"
  using assms unfolding setValues_def
  by (auto split: prod.splits outcome.splits)


lemma setValues_log:
  assumes "setValues rg vs pr m = (out, m')"
  shows "logStep ''setValues'' out m m'"
  using assms
proof (cases rule: setValues_cases)
  case (snapThrows e)
  then show ?thesis by (simp add: logStep_def snapshot_events)
next
  case (sizeThrows e snap m1)
  then show ?thesis using snapshot_events [of rg m] ensureSize_events [of _ _ _ m1]
    by (simp add: logStep_def)
next
  case (loopThrows e snap m1 m2)
  have "events m' = events m2"
    by (rule enumLoop_events [OF _ loopThrows(3)]) (rule setValuesCell_events)
  then show ?thesis
    using loopThrows snapshot_events [of rg m] ensureSize_events [of _ _ _ m1]
    by (simp add: logStep_def)
next
  case (returns snap m1 m2 m3)
  have "events m3 = events m2"
    by (rule enumLoop_events [OF _ returns(3)]) (rule setValuesCell_events)
  then show ?thesis
    using returns snapshot_events [of rg m] ensureSize_events [of _ _ _ m1]
    by (simp add: logStep_def appendEvent_def)
qed

lemma setFormulas_cases:
  assumes "setFormulas rg fs m = (out, m')"
  obtains (snapThrows) e where "snapshot rg m = (Throws e, m')" "out = Throws e"
  | (sizeThrows) e snap m1 where "snapshot rg m = (Returns snap, m1)"
      "ensureSize (sheet rg) (int (r2 rg) + 1) (int (c2 rg) + 1) m1 = (Throws e, m')" "out = Throws e"
  | (loopThrows) e snap m1 m2 where "snapshot rg m = (Returns snap, m1)"
      "ensureSize (sheet rg) (int (r2 rg) + 1) (int (c2 rg) + 1) m1 = (Returns (), m2)"
      "forEach (List.enumerate 0 fs) (\<lambda>(r, frow). forEach (List.enumerate 0 frow)
          (\<lambda>(c, f). setFormulasCell (sheet rg) (r1 rg + r) (c1 rg + c) f)) m2 = (Throws e, m')"
      "out = Throws e"
  | (returns) snap m1 m2 m3 where "snapshot rg m = (Returns snap, m1)"
      "ensureSize (sheet rg) (int (r2 rg) + 1) (int (c2 rg) + 1) m1 = (Returns (), m2)"
      "forEach (List.enumerate 0 fs) (\<lambda>(r, frow). forEach (List.enumerate 0 frow)
          (\<lambda>(c, f). setFormulasCell (sheet rg) (r1 rg + r) (c1 rg + c) f)) m2 = (Returns (), m3)"
      "out = Returns ()"
      "m' = appendEvent ''setFormulas'' (SetCells rg snap)
              (''setFormulas '' @ sheet rg @ ''!'' @ rcToA1 (int (r1 rg)) (int (c1 rg))) m3"
  using assms unfolding setFormulas_def
  by (auto split: prod.splits outcome.splits)

lemma setFormulas_log:
  assumes "setFormulas rg fs m = (out, m')"
  shows "logStep ''setFormulas'' out m m'"
  using assms
proof (cases rule: setFormulas_cases)
  case (snapThrows e)
  then show ?thesis by (simp add: logStep_def snapshot_events)
next
  case (sizeThrows e snap m1)
  then show ?thesis using snapshot_events [of rg m] ensureSize_events [of _ _ _ m1]
    by (simp add: logStep_def)
next
  case (loopThrows e snap m1 m2)
  have "events m' = events m2"
    by (rule enumLoop_events [OF _ loopThrows(3)]) (rule setFormulasCell_events)
  then show ?thesis
    using loopThrows snapshot_events [of rg m] ensureSize_events [of _ _ _ m1]
    by (simp add: logStep_def)
next
  case (returns snap m1 m2 m3)
  have "events m3 = events m2"
    by (rule enumLoop_events [OF _ returns(3)]) (rule setFormulasCell_events)
  then show ?thesis
    using returns snapshot_events [of rg m] ensureSize_events [of _ _ _ m1]
    by (simp add: logStep_def appendEvent_def)
qed

lemma formatRange_cases:
  assumes "formatRange rg fmt m = (out, m')"
  obtains (snapThrows) e where "snapshot rg m = (Throws e, m')" "out = Throws e"
  | (sizeThrows) e snap m1 where "snapshot rg m = (Returns snap, m1)"
      "ensureSize (sheet rg) (int (r2 rg) + 1) (int (c2 rg) + 1) m1 = (Throws e, m')" "out = Throws e"
  | (loopThrows) e snap m1 m2 where "snapshot rg m = (Returns snap, m1)"
      "ensureSize (sheet rg) (int (r2 rg) + 1) (int (c2 rg) + 1) m1 = (Returns (), m2)"
      "forEach [r1 rg ..< Suc (r2 rg)] (\<lambda>r. forEach [c1 rg ..< Suc (c2 rg)]
          (\<lambda>c. formatRangeCell (sheet rg) r c fmt)) m2 = (Throws e, m')"
      "out = Throws e"
  | (returns) snap m1 m2 m3 where "snapshot rg m = (Returns snap, m1)"
      "ensureSize (sheet rg) (int (r2 rg) + 1) (int (c2 rg) + 1) m1 = (Returns (), m2)"
      "forEach [r1 rg ..< Suc (r2 rg)] (\<lambda>r. forEach [c1 rg ..< Suc (c2 rg)]
          (\<lambda>c. formatRangeCell (sheet rg) r c fmt)) m2 = (Returns (), m3)"
      "out = Returns ()"
      "m' = appendEvent ''formatRange'' (SetCells rg snap)
              (''formatRange '' @ sheet rg @ '' '' @ (case fmt of None \<Rightarrow> ''clear'' | Some f \<Rightarrow> f)) m3"
  using assms unfolding formatRange_def
  by (auto split: prod.splits outcome.splits)

lemma formatRange_log:
  assumes "formatRange rg fmt m = (out, m')"
  shows "logStep ''formatRange'' out m m'"
  using assms
proof (cases rule: formatRange_cases)
  case (snapThrows e)
  then show ?thesis by (simp add: logStep_def snapshot_events)
next
  case (sizeThrows e snap m1)
  then show ?thesis using snapshot_events [of rg m] ensureSize_events [of _ _ _ m1]
    by (simp add: logStep_def)
next
  case (loopThrows e snap m1 m2)
  have "events m' = events m2"
    by (rule rangeLoop_events [OF _ loopThrows(3)]) (rule formatRangeCell_events)
  then show ?thesis
    using loopThrows snapshot_events [of rg m] ensureSize_events [of _ _ _ m1]
    by (simp add: logStep_def)
next
  case (returns snap m1 m2 m3)
  have "events m3 = events m2"
    by (rule rangeLoop_events [OF _ returns(3)]) (rule formatRangeCell_events)
  then show ?thesis
    using returns snapshot_events [of rg m] ensureSize_events [of _ _ _ m1]
    by (simp add: logStep_def appendEvent_def)
qed

lemma linkProvenance_cases:
  assumes "linkProvenance rg pr m = (out, m')"
  obtains (snapThrows) e where "snapshot rg m = (Throws e, m')" "out = Throws e"
  | (loopThrows) e snap m1 where "snapshot rg m = (Returns snap, m1)"
      "forEach [r1 rg ..< Suc (r2 rg)] (\<lambda>r. forEach [c1 rg ..< Suc (c2 rg)]
          (\<lambda>c. linkProvenanceCell (sheet rg) r c pr)) m1 = (Throws e, m')"
      "out = Throws e"
  | (returns) snap m1 m2 where "snapshot rg m = (Returns snap, m1)"
      "forEach [r1 rg ..< Suc (r2 rg)] (\<lambda>r. forEach [c1 rg ..< Suc (c2 rg)]
          (\<lambda>c. linkProvenanceCell (sheet rg) r c pr)) m1 = (Returns (), m2)"
      "out = Returns ()"
      "m' = appendEvent ''linkProvenance'' (SetCells rg snap) (''linkProvenance '' @ sheet rg) m2"
  using assms unfolding linkProvenance_def
  by (auto split: prod.splits outcome.splits)

lemma linkProvenance_log:
  assumes "linkProvenance rg pr m = (out, m')"
  shows "logStep ''linkProvenance'' out m m'"
  using assms
proof (cases rule: linkProvenance_cases)
  case (snapThrows e)
  then show ?thesis by (simp add: logStep_def snapshot_events)
next
  case (loopThrows e snap m1)
  have "events m' = events m1"
    by (rule rangeLoop_events [OF _ loopThrows(2)]) (rule linkProvenanceCell_events)
  then show ?thesis
    using loopThrows snapshot_events [of rg m] by (simp add: logStep_def)
next
  case (returns snap m1 m2)
  have "events m2 = events m1"
    by (rule rangeLoop_events [OF _ returns(2)]) (rule linkProvenanceCell_events)
  then show ?thesis
    using returns snapshot_events [of rg m] by (simp add: logStep_def appendEvent_def)
qed

lemma setCells_cases:
  assumes "setCells rg cells m = (out, m')"
  obtains (sheetThrows) e where "getSheet (sheet rg) m = Throws e" "out = Throws e" "m' = m"
  | (sizeThrows) e where
      "ensureSize (sheet rg) (int (r2 rg) + 1) (int (c2 rg) + 1) m = (Throws e, m')" "out = Throws e"
  | (loopThrows) e m1 where
      "ensureSize (sheet rg) (int (r2 rg) + 1) (int (c2 rg) + 1) m = (Returns (), m1)"
      "forEach (List.enumerate 0 cells) (\<lambda>(r, crow). forEach (List.enumerate 0 crow)
          (\<lambda>(c, x). setCellsCell (sheet rg) (r1 rg + r) (c1 rg + c) x)) m1 = (Throws e, m')"
      "out = Throws e"
  | (returns) m1 m2 where
      "ensureSize (sheet rg) (int (r2 rg) + 1) (int (c2 rg) + 1) m = (Returns (), m1)"
      "forEach (List.enumerate 0 cells) (\<lambda>(r, crow). forEach (List.enumerate 0 crow)
          (\<lambda>(c, x). setCellsCell (sheet rg) (r1 rg + r) (c1 rg + c) x)) m1 = (Returns (), m2)"
      "out = Returns ()"
      "m' = appendEvent ''setCells'' Noop ''setCells'' m2"
  using assms unfolding setCells_def
  by (auto split: prod.splits outcome.splits)

lemma setCells_log:
  assumes "setCells rg cells m = (out, m')"
  shows "logStep ''setCells'' out m m'"
  using assms
proof (cases rule: setCells_cases)
  case (sheetThrows e)
  then show ?thesis by (simp add: logStep_def)
next
  case (sizeThrows e)
  then show ?thesis using ensureSize_events [of _ _ _ m] by (simp add: logStep_def)
next
  case (loopThrows e m1)
  have "events m' = events m1"
    by (rule enumLoop_events [OF _ loopThrows(2)]) (rule setCellsCell_events)
  then show ?thesis
    using loopThrows ensureSize_events [of _ _ _ m] by (simp add: logStep_def)
next
  case (returns m1 m2)
  have "events m2 = events m1"
    by (rule enumLoop_events [OF _ returns(2)]) (rule setCellsCell_events)
  then show ?thesis
    using returns ensureSize_events [of _ _ _ m] by (simp add: logStep_def appendEvent_def)
qed

lemma dispatch_log:
  assumes "dispatch call b m = (out, m')"
  shows "if recorded call then logStep (opName call) out m m' else events m' = events m"
proof (cases call)
  case (CreateSheet nm)
  then show ?thesis using assms createSheet_log by (simp add: dispatch_def)
next
  case (DeleteSheet nm)
  then show ?thesis using assms deleteSheet_log by (simp add: dispatch_def)
next
  case (RestoreSheet s)
  then show ?thesis using assms restoreSheet_log by (simp add: dispatch_def)
next
  case (SetValues rg vs pr)
  then show ?thesis using assms setValues_log by (simp add: dispatch_def)
next
  case (SetFormulas rg fs)
  then show ?thesis using assms setFormulas_log by (simp add: dispatch_def)
next
  case (FormatRange rg fmt)
  then show ?thesis using assms formatRange_log by (simp add: dispatch_def)
next
  case (SetCells rg cells)
  then show ?thesis using assms setCells_log by (simp add: dispatch_def)
next
  case (LinkProvenance rg pr)
  then show ?thesis using assms linkProvenance_log by (simp add: dispatch_def)
next
  case Noop
  then show ?thesis using assms by (auto simp: dispatch_def)
next
  case (OtherOp s)
  then show ?thesis using assms by (auto simp: dispatch_def split: if_splits)
qed

lemma undo_cases:
  assumes "events m = es @ [ev]" "undo m = (out, m')"
  obtains (throws) e where "dispatch (ev_inverse ev) True (m\<lparr>events := es\<rparr>) = (Throws e, m')" "out = Throws e"
  | (returns) "dispatch (ev_inverse ev) True (m\<lparr>events := es\<rparr>) = (Returns (), m')" "out = Returns (Some ev)"
proof (cases "dispatch (ev_inverse ev) True (m\<lparr>events := es\<rparr>)")
  case (Pair o1 m1)
  have u: "undo m = (case dispatch (ev_inverse ev) True (m\<lparr>events := es\<rparr>) of
                (Throws e, m2) \<Rightarrow> (Throws e, m2)
              | (Returns u, m2) \<Rightarrow> (Returns (Some ev), m2))"
    using assms(1) by (cases es) (simp_all add: undo_def Let_def)
  show ?thesis
  proof (cases o1)
    case (Returns u)
    then show ?thesis using Pair u assms(2) returns by simp
  next
    case (Throws e)
    then show ?thesis using Pair u assms(2) throws by simp
  qed
qed

lemma sampleBook_events:
  "events sampleBook =
     [\<lparr>ev_op = ''createSheet'', ev_inverse = DeleteSheet ''Sheet1'', ev_summary = ''create Sheet1''\<rparr>]
     @ [\<lparr>ev_op = ''setValues'', ev_inverse = SetCells cellA1 [[defaultCell]],
          ev_summary = ''setValues Sheet1!A1''\<rparr>]"
  by code_simp

lemma sampleBook_undo_events:
  "events (snd (undo sampleBook)) =
     [\<lparr>ev_op = ''createSheet'', ev_inverse = DeleteSheet ''Sheet1'', ev_summary = ''create Sheet1''\<rparr>,
      \<lparr>ev_op = ''setCells'', ev_inverse = Noop, ev_summary = ''setCells''\<rparr>]"
  by code_simp

text \<open>
  C3, as the code has it. A call run through \<open>dispatch\<close> leaves the events already in
  the log in place: when it throws, or is \<open>noop\<close> or an unknown op let through, the log
  is unchanged, and otherwise exactly one event, carrying the op's name, is appended.
  \<open>undo()\<close> on an empty log returns \<open>null\<close> and changes nothing. On a log
  \<open>es @ [ev]\<close> it removes \<open>ev\<close> and replays its inverse through \<open>dispatch\<close>, and the
  replay records its own event like any other call: after an undo that returns, the log
  is \<open>es\<close> followed by one new event named after the inverse op, unless the inverse is
  \<open>noop\<close> (or an unknown op), in which case the log is \<open>es\<close>; when the replay throws the
  log is \<open>es\<close>.
\<close>

theorem event_log_discipline:
  "(dispatch call b m = (out, m') \<longrightarrow>
      (if recorded call then logStep (opName call) out m m' else events m' = events m))
   \<and> (events m = [] \<longrightarrow> undo m = (Returns None, m))
   \<and> (events m = es @ [ev] \<and> undo m = (uout, m2) \<longrightarrow>
        (case uout of
           Throws e \<Rightarrow> events m2 = es
         | Returns x \<Rightarrow>
             x = Some ev \<and>
             (if recorded (ev_inverse ev)
              then (\<exists>inver summ. events m2 =
                      es @ [\<lparr>ev_op = opName (ev_inverse ev), ev_inverse = inver, ev_summary = summ\<rparr>])
              else events m2 = es)))"
proof (intro conjI impI)
  assume "dispatch call b m = (out, m')"
  then show "if recorded call then logStep (opName call) out m m' else events m' = events m"
    by (rule dispatch_log)
next
  assume "events m = []"
  then show "undo m = (Returns None, m)" by (simp add: undo_def)
next
  assume a: "events m = es @ [ev] \<and> undo m = (uout, m2)"
  then have ev: "events m = es @ [ev]" and u: "undo m = (uout, m2)" by simp_all
  from ev u show "case uout of
           Throws e \<Rightarrow> events m2 = es
         | Returns x \<Rightarrow>
             x = Some ev \<and>
             (if recorded (ev_inverse ev)
              then (\<exists>inver summ. events m2 =
                      es @ [\<lparr>ev_op = opName (ev_inverse ev), ev_inverse = inver, ev_summary = summ\<rparr>])
              else events m2 = es)"
  proof (cases rule: undo_cases)
    case (throws e)
    from dispatch_log [OF throws(1)] show ?thesis
      using throws(2) by (simp add: logStep_def split: if_splits)
  next
    case returns
    from dispatch_log [OF returns(1)] show ?thesis
      using returns(2) by (simp add: logStep_def split: if_splits)
  qed
qed

theorem event_log_discipline_witness:
  "events sampleBook = butlast (events sampleBook) @ [last (events sampleBook)]
   \<and> recorded (ev_inverse (last (events sampleBook)))
   \<and> (\<exists>inver summ. events (snd (undo sampleBook)) =
         butlast (events sampleBook) @ [\<lparr>ev_op = ''setCells'', ev_inverse = inver, ev_summary = summ\<rparr>])
   \<and> logStep ''createSheet'' (fst (dispatch (CreateSheet ''X'') False sampleBook)) sampleBook
         (snd (dispatch (CreateSheet ''X'') False sampleBook))"
proof -
  note t = event_log_discipline [of "CreateSheet ''X''" False sampleBook
      "fst (dispatch (CreateSheet ''X'') False sampleBook)"
      "snd (dispatch (CreateSheet ''X'') False sampleBook)"
      "butlast (events sampleBook)" "last (events sampleBook)"
      "fst (undo sampleBook)" "snd (undo sampleBook)"]
  have a: "events sampleBook = butlast (events sampleBook) @ [last (events sampleBook)]"
    by (simp add: sampleBook_events)
  have b: "ev_inverse (last (events sampleBook)) = SetCells cellA1 [[defaultCell]]"
    by (simp add: sampleBook_events)
  have c: "fst (undo sampleBook) = Returns (Some (last (events sampleBook)))"
    by code_simp
  have d: "undo sampleBook = (Returns (Some (last (events sampleBook))), snd (undo sampleBook))"
    using c by (metis prod.collapse)
  show ?thesis using t a b c d by simp
qed

text \<open>
  The claim as stated fails: undoing the \<open>setValues\<close> of the sample workbook does not
  leave the log one event shorter. The replayed \<open>setCells\<close> has put an event of its own
  in the place of the one removed.
\<close>

theorem undo_replay_counterexample:
  "events (snd (undo sampleBook)) =
     butlast (events sampleBook) @ [\<lparr>ev_op = ''setCells'', ev_inverse = Noop, ev_summary = ''setCells''\<rparr>]
   \<and> events (snd (undo sampleBook)) \<noteq> butlast (events sampleBook)
   \<and> length (events (snd (undo sampleBook))) = length (events sampleBook)"
  by (simp add: sampleBook_events sampleBook_undo_events)

subsection \<open>Grids as partial maps from positions to cells\<close>

lemma length_padRow: "length (padRow nc row) = max (length row) (nat nc)"
  by (simp add: padRow_def)

lemma length_padded: "length (padded nr nc g) = max (length g) (nat nr)"
  by (simp add: padded_def)

lemma padded_nth:
  "i < max (length g) (nat nr) \<Longrightarrow>
   padded nr nc g ! i = padRow nc (if i < length g then g ! i else [])"
  by (simp add: padded_def nth_append)

lemma padRow_nth:
  "j < max (length row) (nat nc) \<Longrightarrow>
   padRow nc row ! j = (if j < length row then row ! j else Some defaultCell)"
  by (simp add: padRow_def nth_append)

lemma slot_padded:
  "slot (padded nr nc g) r c =
     (if r < length g \<and> c < length (g ! r) then g ! r ! c
      else if r < max (length g) (nat nr) \<and> c < nat nc then Some defaultCell
      else None)"
  by (auto simp: slot_def length_padded padded_nth length_padRow padRow_nth)

lemma slot_writeRow_grid:
  "rr < length g \<Longrightarrow>
   slot (g[rr := writeRow (g ! rr) cc x]) r c = (if r = rr \<and> c = cc then Some x else slot g r c)"
  by (auto simp: slot_def writeRow_def nth_list_update nth_append)

lemma gridOf_putSheet:
  "map_of (sheets m) nm \<noteq> None \<Longrightarrow>
   gridOf (putSheet nm s m) k = (if k = nm then rows s else gridOf m k)"
  by (simp add: gridOf_def putSheet_def update_conv')

lemma map_of_putSheet:
  "map_of (sheets (putSheet nm s m)) k = (if k = nm then Some s else map_of (sheets m) k)"
  by (simp add: putSheet_def update_conv')

lemma store_putSheet [simp]: "store (putSheet nm s m) = store m"
  by (simp add: putSheet_def)

lemma ensureSize_effect:
  assumes "map_of (sheets m) nm = Some s"
  shows "ensureSize nm nr nc m = (Returns (), putSheet nm (s\<lparr>rows := padded nr nc (rows s)\<rparr>) m)"
  using assms by (simp add: ensureSize_def getSheet_def)

lemma ensureSize_grid:
  assumes "map_of (sheets m) nm \<noteq> None" "ensureSize nm nr nc m = (out, m')"
  shows "out = Returns () \<and> gridOf m' nm = padded nr nc (gridOf m nm)
         \<and> map_of (sheets m') nm \<noteq> None \<and> store m' = store m"
proof -
  obtain s where s: "map_of (sheets m) nm = Some s" using assms(1) by auto
  have "gridOf m nm = rows s" using s by (simp add: gridOf_def)
  then show ?thesis using assms(2) s ensureSize_effect [OF s, of nr nc]
    by (auto simp: gridOf_putSheet map_of_putSheet)
qed

lemma mapE_Returns:
  assumes "\<And>x. x \<in> set xs \<Longrightarrow> g x = Returns (f x)"
  shows "mapE xs g = Returns (map f xs)"
  using assms by (induction xs) simp_all

lemma readCell_inside:
  "r < length g \<Longrightarrow> c < length (g ! r) \<Longrightarrow> readCell g (int r) (int c) = Returns (g ! r ! c)"
  by (simp add: readCell_def)

lemma readCell_slot:
  "r < length g \<Longrightarrow> readCell g (int r) (int c) = Returns (slot g r c)"
  by (simp add: readCell_def slot_def)

lemma readCell_outside:
  "length g \<le> r \<Longrightarrow> readCell g (int r) (int c) = Throws TypeError"
  by (simp add: readCell_def)

lemma snapshot_effect:
  assumes "snapshot rg m = (Returns snap, m1)"
  shows "map_of (sheets m) (sheet rg) \<noteq> None
       \<and> map_of (sheets m1) (sheet rg) \<noteq> None
       \<and> store m1 = store m
       \<and> gridOf m1 (sheet rg) = padded (int (r2 rg) + 1) (int (c2 rg) + 1) (gridOf m (sheet rg))
       \<and> snap = map (\<lambda>r. map (\<lambda>c. spread (slot (gridOf m1 (sheet rg)) r c)) [c1 rg ..< Suc (c2 rg)])
                    [r1 rg ..< Suc (r2 rg)]"
proof -
  let ?nm = "sheet rg"
  have hs: "map_of (sheets m) ?nm \<noteq> None"
    using assms by (auto simp: snapshot_def getSheet_def split: option.splits)
  obtain o2 m2 where e: "ensureSize ?nm (int (r2 rg) + 1) (int (c2 rg) + 1) m = (o2, m2)"
    by (cases "ensureSize ?nm (int (r2 rg) + 1) (int (c2 rg) + 1) m")
  note eg = ensureSize_grid [OF hs e]
  obtain s2 where s2: "map_of (sheets m2) ?nm = Some s2" using eg by auto
  have g2: "rows s2 = gridOf m2 ?nm" using s2 by (simp add: gridOf_def)
  let ?G = "gridOf m2 ?nm"
  have len: "r2 rg < length ?G" using eg by (simp add: length_padded)
  have inner: "\<And>r. r \<in> set [r1 rg ..< Suc (r2 rg)] \<Longrightarrow>
      mapE [c1 rg ..< Suc (c2 rg)] (\<lambda>c. case readCell ?G (int r) (int c) of
           Throws e \<Rightarrow> Throws e | Returns x \<Rightarrow> Returns (spread x))
      = Returns (map (\<lambda>c. spread (slot ?G r c)) [c1 rg ..< Suc (c2 rg)])"
  proof -
    fix r assume "r \<in> set [r1 rg ..< Suc (r2 rg)]"
    then have "r \<le> r2 rg" by auto
    then have rl: "r < length ?G" using len by linarith
    show "mapE [c1 rg ..< Suc (c2 rg)] (\<lambda>c. case readCell ?G (int r) (int c) of
           Throws e \<Rightarrow> Throws e | Returns x \<Rightarrow> Returns (spread x))
      = Returns (map (\<lambda>c. spread (slot ?G r c)) [c1 rg ..< Suc (c2 rg)])"
      by (rule mapE_Returns) (simp add: readCell_slot [OF rl])
  qed
  have outer: "mapE [r1 rg ..< Suc (r2 rg)] (\<lambda>r. mapE [c1 rg ..< Suc (c2 rg)]
        (\<lambda>c. case readCell ?G (int r) (int c) of
           Throws e \<Rightarrow> Throws e | Returns x \<Rightarrow> Returns (spread x)))
      = Returns (map (\<lambda>r. map (\<lambda>c. spread (slot ?G r c)) [c1 rg ..< Suc (c2 rg)]) [r1 rg ..< Suc (r2 rg)])"
    by (rule mapE_Returns) (rule inner)
  have "snapshot rg m = (Returns (map (\<lambda>r. map (\<lambda>c. spread (slot ?G r c)) [c1 rg ..< Suc (c2 rg)])
        [r1 rg ..< Suc (r2 rg)]), m2)"
    using hs e eg s2 outer by (auto simp: snapshot_def getSheet_def g2)
  then show ?thesis using assms eg hs by simp
qed

subsection \<open>setValues followed by undo\<close>

lemma setCellsCell_effect:
  assumes "map_of (sheets m) nm \<noteq> None" "rr < length (gridOf m nm)"
  shows "\<exists>m'. setCellsCell nm rr cc x m = (Returns (), m')
            \<and> map_of (sheets m') nm \<noteq> None
            \<and> length (gridOf m' nm) = length (gridOf m nm)
            \<and> (\<forall>r c. slot (gridOf m' nm) r c =
                  (if r = rr \<and> c = cc then Some x else slot (gridOf m nm) r c))"
proof -
  obtain s where s: "map_of (sheets m) nm = Some s" using assms(1) by auto
  have g: "gridOf m nm = rows s" using s by (simp add: gridOf_def)
  have "setCellsCell nm rr cc x m =
      (Returns (), putSheet nm (s\<lparr>rows := (rows s)[rr := writeRow (rows s ! rr) cc x]\<rparr>) m)"
    using s assms(2) g by (simp add: setCellsCell_def getSheet_def writeCell_def)
  then show ?thesis using assms g
    by (simp add: gridOf_putSheet map_of_putSheet slot_writeRow_grid)
qed

lemma setCells_row:
  assumes "map_of (sheets m) nm \<noteq> None" "rr < length (gridOf m nm)"
  shows "\<exists>m'. forEach (List.enumerate k crow) (\<lambda>(c, x). setCellsCell nm rr (cb + c) x) m = (Returns (), m')
            \<and> map_of (sheets m') nm \<noteq> None
            \<and> length (gridOf m' nm) = length (gridOf m nm)
            \<and> (\<forall>r c. slot (gridOf m' nm) r c =
                  (if r = rr \<and> cb + k \<le> c \<and> c < cb + k + length crow
                   then Some (crow ! (c - cb - k)) else slot (gridOf m nm) r c))"
  using assms
proof (induction crow arbitrary: k m)
  case Nil
  then show ?case by auto
next
  case (Cons x xs)
  obtain m1 where m1: "setCellsCell nm rr (cb + k) x m = (Returns (), m1)"
      "map_of (sheets m1) nm \<noteq> None" "length (gridOf m1 nm) = length (gridOf m nm)"
      "\<forall>r c. slot (gridOf m1 nm) r c = (if r = rr \<and> c = cb + k then Some x else slot (gridOf m nm) r c)"
    using setCellsCell_effect [OF Cons.prems, of "cb + k" x] by blast
  have rr1: "rr < length (gridOf m1 nm)" using m1(3) Cons.prems(2) by simp
  obtain m2 where m2: "forEach (List.enumerate (Suc k) xs) (\<lambda>(c, x). setCellsCell nm rr (cb + c) x) m1 = (Returns (), m2)"
      "map_of (sheets m2) nm \<noteq> None" "length (gridOf m2 nm) = length (gridOf m1 nm)"
      "\<forall>r c. slot (gridOf m2 nm) r c =
                  (if r = rr \<and> cb + Suc k \<le> c \<and> c < cb + Suc k + length xs
                   then Some (xs ! (c - cb - Suc k)) else slot (gridOf m1 nm) r c)"
    using Cons.IH [OF m1(2) rr1, of "Suc k"] by blast
  have run: "forEach (List.enumerate k (x # xs)) (\<lambda>(c, x). setCellsCell nm rr (cb + c) x) m = (Returns (), m2)"
    using m1(1) m2(1) by simp
  have sl: "\<forall>r c. slot (gridOf m2 nm) r c =
                  (if r = rr \<and> cb + k \<le> c \<and> c < cb + k + length (x # xs)
                   then Some ((x # xs) ! (c - cb - k)) else slot (gridOf m nm) r c)"
  proof (intro allI)
    fix r c
    show "slot (gridOf m2 nm) r c =
                  (if r = rr \<and> cb + k \<le> c \<and> c < cb + k + length (x # xs)
                   then Some ((x # xs) ! (c - cb - k)) else slot (gridOf m nm) r c)"
    proof (cases "r = rr \<and> cb + Suc k \<le> c \<and> c < cb + Suc k + length xs")
      case True
      then have "c - cb - k = Suc (c - cb - Suc k)" by linarith
      then show ?thesis using True m2(4) by simp
    next
      case False
      then show ?thesis using m2(4) m1(4) by (auto simp: nth_Cons')
    qed
  qed
  show ?case using run m2(2) m2(3) m1(3) sl by simp
qed

lemma setCells_rows:
  assumes "map_of (sheets m) nm \<noteq> None" "cells = [] \<or> rb + k + length cells \<le> length (gridOf m nm)"
  shows "\<exists>m'. forEach (List.enumerate k cells) (\<lambda>(r, crow). forEach (List.enumerate 0 crow)
                   (\<lambda>(c, x). setCellsCell nm (rb + r) (cb + c) x)) m = (Returns (), m')
            \<and> map_of (sheets m') nm \<noteq> None
            \<and> length (gridOf m' nm) = length (gridOf m nm)
            \<and> events m' = events m
            \<and> (\<forall>r c. slot (gridOf m' nm) r c =
                  (if rb + k \<le> r \<and> r < rb + k + length cells
                      \<and> cb \<le> c \<and> c < cb + length (cells ! (r - rb - k))
                   then Some (cells ! (r - rb - k) ! (c - cb)) else slot (gridOf m nm) r c))"
  using assms
proof (induction cells arbitrary: k m)
  case Nil
  then show ?case by auto
next
  case (Cons row more)
  have rr: "rb + k < length (gridOf m nm)" using Cons.prems(2) by simp
  obtain m1 where m1: "forEach (List.enumerate 0 row) (\<lambda>(c, x). setCellsCell nm (rb + k) (cb + c) x) m = (Returns (), m1)"
      "map_of (sheets m1) nm \<noteq> None" "length (gridOf m1 nm) = length (gridOf m nm)"
      "\<forall>r c. slot (gridOf m1 nm) r c =
                  (if r = rb + k \<and> cb + 0 \<le> c \<and> c < cb + 0 + length row
                   then Some (row ! (c - cb - 0)) else slot (gridOf m nm) r c)"
    using setCells_row [OF Cons.prems(1) rr, of 0 row cb] by blast
  have ev1: "events m1 = events m"
    by (rule forEach_events [OF _ m1(1)]) (auto simp: setCellsCell_events)
  have pre: "more = [] \<or> rb + Suc k + length more \<le> length (gridOf m1 nm)"
    using Cons.prems(2) m1(3) by simp
  obtain m2 where m2: "forEach (List.enumerate (Suc k) more) (\<lambda>(r, crow). forEach (List.enumerate 0 crow)
                   (\<lambda>(c, x). setCellsCell nm (rb + r) (cb + c) x)) m1 = (Returns (), m2)"
      "map_of (sheets m2) nm \<noteq> None" "length (gridOf m2 nm) = length (gridOf m1 nm)"
      "events m2 = events m1"
      "\<forall>r c. slot (gridOf m2 nm) r c =
                  (if rb + Suc k \<le> r \<and> r < rb + Suc k + length more
                      \<and> cb \<le> c \<and> c < cb + length (more ! (r - rb - Suc k))
                   then Some (more ! (r - rb - Suc k) ! (c - cb)) else slot (gridOf m1 nm) r c)"
    using Cons.IH [OF m1(2) pre] by blast
  have run: "forEach (List.enumerate k (row # more)) (\<lambda>(r, crow). forEach (List.enumerate 0 crow)
                   (\<lambda>(c, x). setCellsCell nm (rb + r) (cb + c) x)) m = (Returns (), m2)"
    using m1(1) m2(1) by simp
  have sl: "\<forall>r c. slot (gridOf m2 nm) r c =
                  (if rb + k \<le> r \<and> r < rb + k + length (row # more)
                      \<and> cb \<le> c \<and> c < cb + length ((row # more) ! (r - rb - k))
                   then Some ((row # more) ! (r - rb - k) ! (c - cb)) else slot (gridOf m nm) r c)"
  proof (intro allI)
    fix r c
    show "slot (gridOf m2 nm) r c =
                  (if rb + k \<le> r \<and> r < rb + k + length (row # more)
                      \<and> cb \<le> c \<and> c < cb + length ((row # more) ! (r - rb - k))
                   then Some ((row # more) ! (r - rb - k) ! (c - cb)) else slot (gridOf m nm) r c)"
    proof (cases "rb + Suc k \<le> r")
      case True
      then have e: "r - rb - k = Suc (r - rb - Suc k)" by linarith
      have ne: "r \<noteq> rb + k" using True by simp
      show ?thesis using True m2(5) m1(4) ne by (simp add: e)
    next
      case False
      show ?thesis
      proof (cases "r = rb + k")
        case True
        then show ?thesis using m2(5) m1(4) by simp
      next
        case ne: False
        then have "r < rb + k" using False by simp
        then show ?thesis using m2(5) m1(4) by simp
      qed
    qed
  qed
  show ?case using run m2(2) m2(3) m2(4) m1(3) ev1 sl by simp
qed

lemma gridOf_events_update [simp]: "gridOf (m\<lparr>events := es\<rparr>) nm = gridOf m nm"
  by (simp add: gridOf_def)

lemma gridOf_appendEvent [simp]: "gridOf (appendEvent a b c m) nm = gridOf m nm"
  by (simp add: gridOf_def appendEvent_def)

lemma sheets_appendEvent [simp]: "sheets (appendEvent a b c m) = sheets m"
  by (simp add: appendEvent_def)

lemma setCells_restores:
  assumes hs: "map_of (sheets m) (sheet rg) \<noteq> None"
    and dims: "length cells = Suc (r2 rg) - r1 rg"
  shows "\<exists>m'. setCells rg cells m = (Returns (), m')
           \<and> events m' = events m @ [\<lparr>ev_op = ''setCells'', ev_inverse = Noop, ev_summary = ''setCells''\<rparr>]
           \<and> (\<forall>r c. r1 rg \<le> r \<and> r < r1 rg + length cells
                    \<and> c1 rg \<le> c \<and> c < c1 rg + length (cells ! (r - r1 rg))
                 \<longrightarrow> slot (gridOf m' (sheet rg)) r c = Some (cells ! (r - r1 rg) ! (c - c1 rg)))"
proof -
  let ?nm = "sheet rg"
  obtain s where s: "getSheet ?nm m = Returns s"
    using hs by (auto simp: getSheet_def)
  obtain o1 m1 where e: "ensureSize ?nm (int (r2 rg) + 1) (int (c2 rg) + 1) m = (o1, m1)"
    by (cases "ensureSize ?nm (int (r2 rg) + 1) (int (c2 rg) + 1) m")
  note eg = ensureSize_grid [OF hs e]
  have ev1: "events m1 = events m" using e by (rule ensureSize_events)
  have len: "Suc (r2 rg) \<le> length (gridOf m1 ?nm)" using eg by (simp add: length_padded)
  have pre: "cells = [] \<or> r1 rg + 0 + length cells \<le> length (gridOf m1 ?nm)"
    using dims len by (cases "r1 rg \<le> r2 rg") auto
  have hs1: "map_of (sheets m1) ?nm \<noteq> None" using eg by simp
  obtain m2 where m2: "forEach (List.enumerate 0 cells) (\<lambda>(r, crow). forEach (List.enumerate 0 crow)
                   (\<lambda>(c, x). setCellsCell ?nm (r1 rg + r) (c1 rg + c) x)) m1 = (Returns (), m2)"
      "events m2 = events m1"
      "\<forall>r c. slot (gridOf m2 ?nm) r c =
                  (if r1 rg + 0 \<le> r \<and> r < r1 rg + 0 + length cells
                      \<and> c1 rg \<le> c \<and> c < c1 rg + length (cells ! (r - r1 rg - 0))
                   then Some (cells ! (r - r1 rg - 0) ! (c - c1 rg)) else slot (gridOf m1 ?nm) r c)"
    using setCells_rows [OF hs1 pre, of "c1 rg"] by blast
  have run: "setCells rg cells m = (Returns (), appendEvent ''setCells'' Noop ''setCells'' m2)"
    using s e eg m2(1) by (simp add: setCells_def)
  show ?thesis
    using run m2(2) m2(3) ev1 by (simp add: appendEvent_def gridOf_def)
qed

lemma enumLoop_preserves:
  assumes cell: "\<And>r c v m out m'. P m \<Longrightarrow> g r c v m = (out, m') \<Longrightarrow> P m'"
    and "P m"
    and run: "forEach (List.enumerate 0 vs) (\<lambda>(r, vrow). forEach (List.enumerate 0 vrow)
          (\<lambda>(c, v). g r c v)) m = (out, m')"
  shows "P m'"
proof (rule forEach_preserves [where P = P, OF _ assms(2) run])
  fix x k o1 k'
  assume pk: "P k"
    and "(case x of (r, vrow) \<Rightarrow> forEach (List.enumerate 0 vrow) (\<lambda>(c, v). g r c v)) k = (o1, k')"
  then have inner: "forEach (List.enumerate 0 (snd x)) (\<lambda>(c, v). g (fst x) c v) k = (o1, k')"
    by (simp add: case_prod_unfold)
  show "P k'"
  proof (rule forEach_preserves [where P = P, OF _ pk inner])
    fix y j o2 j'
    assume "P j" "(case y of (c, v) \<Rightarrow> g (fst x) c v) j = (o2, j')"
    then show "P j'" using cell [of j "fst x" "fst y" "snd y" o2 j'] by (simp add: case_prod_unfold)
  qed
qed

lemma setValuesCell_hasSheet:
  "map_of (sheets m) k \<noteq> None \<Longrightarrow> setValuesCell nm rr cc v pr m = (out, m')
   \<Longrightarrow> map_of (sheets m') k \<noteq> None"
  by (auto simp: setValuesCell_def Let_def map_of_putSheet
      split: outcome.splits option.splits)

lemma snapshot_cell:
  assumes "snapshot rg m = (Returns snap, m1)"
    and "r1 rg \<le> r" "r \<le> r2 rg" "c1 rg \<le> c" "c \<le> c2 rg"
  shows "length snap = Suc (r2 rg) - r1 rg"
    and "c - c1 rg < length (snap ! (r - r1 rg))"
    and "slot (gridOf m (sheet rg)) r c = Some x \<Longrightarrow> snap ! (r - r1 rg) ! (c - c1 rg) = x"
    and "outsideGrid (gridOf m (sheet rg)) r c \<Longrightarrow> snap ! (r - r1 rg) ! (c - c1 rg) = defaultCell"
proof -
  note se = snapshot_effect [OF assms(1)]
  let ?G = "gridOf m1 (sheet rg)"
  have snap: "snap = map (\<lambda>r. map (\<lambda>c. spread (slot ?G r c)) [c1 rg ..< Suc (c2 rg)])
                    [r1 rg ..< Suc (r2 rg)]"
    using se by simp
  show "length snap = Suc (r2 rg) - r1 rg" using snap by (simp del: upt_Suc)
  have ri: "r - r1 rg < Suc (r2 rg) - r1 rg" using assms by linarith
  have ci: "c - c1 rg < Suc (c2 rg) - c1 rg" using assms by linarith
  have row: "snap ! (r - r1 rg) = map (\<lambda>c. spread (slot ?G r c)) [c1 rg ..< Suc (c2 rg)]"
    using snap ri assms by (simp del: upt_Suc)
  show "c - c1 rg < length (snap ! (r - r1 rg))" using row ci by (simp del: upt_Suc)
  have cell: "snap ! (r - r1 rg) ! (c - c1 rg) = spread (slot ?G r c)"
    using row ci assms by (simp del: upt_Suc)
  have G: "?G = padded (int (r2 rg) + 1) (int (c2 rg) + 1) (gridOf m (sheet rg))"
    using se by simp
  { assume "slot (gridOf m (sheet rg)) r c = Some x"
    then have "slot ?G r c = Some x"
      unfolding G slot_padded by (simp add: slot_def split: if_splits)
    then show "snap ! (r - r1 rg) ! (c - c1 rg) = x" using cell by (simp add: spread_def) }
  { assume "outsideGrid (gridOf m (sheet rg)) r c"
    then have "slot ?G r c = Some defaultCell"
      unfolding G slot_padded using assms by (auto simp: outsideGrid_def)
    then show "snap ! (r - r1 rg) ! (c - c1 rg) = defaultCell" using cell by (simp add: spread_def) }
qed

text \<open>
  C2. When \<open>setValues\<close> on a range has returned and \<open>undo()\<close> is called next, the undo
  returns the \<open>setValues\<close> event, and every cell of the range is again the cell it was
  before the \<open>setValues\<close>: the same value, the same formula or absence of one, and the
  same format (the record is the same in all its fields). A position of the range that
  was outside the grid before, and so had no cell, holds the default cell
  \<open>{ value: null }\<close>, with no formula and no format.
\<close>

theorem setValues_undo_restores:
  assumes sv: "setValues rg vs pr m = (Returns (), m1)"
    and un: "undo m1 = (uout, m2)"
    and inr: "r1 rg \<le> r" "r \<le> r2 rg" "c1 rg \<le> c" "c \<le> c2 rg"
  shows "uout = Returns (Some (last (events m1)))
       \<and> ev_op (last (events m1)) = ''setValues''
       \<and> (\<forall>x. slot (gridOf m (sheet rg)) r c = Some x \<longrightarrow> slot (gridOf m2 (sheet rg)) r c = Some x)
       \<and> (outsideGrid (gridOf m (sheet rg)) r c \<longrightarrow> slot (gridOf m2 (sheet rg)) r c = Some defaultCell)"
  using sv
proof (cases rule: setValues_cases)
  case (returns snap ma mb mc)
  let ?nm = "sheet rg"
  let ?ev = "\<lparr>ev_op = ''setValues'', ev_inverse = SetCells rg snap,
      ev_summary = ''setValues '' @ sheet rg @ ''!'' @ rcToA1 (int (r1 rg)) (int (c1 rg))\<rparr>"
  have evs: "events m1 = events mc @ [?ev]" using returns(5) by (simp add: appendEvent_def)
  have hsa: "map_of (sheets ma) ?nm \<noteq> None" using snapshot_effect [OF returns(1)] by simp
  have hsb: "map_of (sheets mb) ?nm \<noteq> None" using ensureSize_grid [OF hsa returns(2)] by simp
  have hsc: "map_of (sheets mc) ?nm \<noteq> None"
    by (rule enumLoop_preserves [where P = "\<lambda>k. map_of (sheets k) ?nm \<noteq> None", OF _ hsb returns(3)])
       (rule setValuesCell_hasSheet)
  have hs1: "map_of (sheets (m1\<lparr>events := events mc\<rparr>)) ?nm \<noteq> None"
    using hsc returns(5) by simp
  note sc = snapshot_cell [OF returns(1) inr]
  obtain m' where m': "setCells rg snap (m1\<lparr>events := events mc\<rparr>) = (Returns (), m')"
      "\<forall>r c. r1 rg \<le> r \<and> r < r1 rg + length snap
                    \<and> c1 rg \<le> c \<and> c < c1 rg + length (snap ! (r - r1 rg))
                 \<longrightarrow> slot (gridOf m' ?nm) r c = Some (snap ! (r - r1 rg) ! (c - c1 rg))"
    using setCells_restores [OF hs1 sc(1)] by blast
  have d: "dispatch (ev_inverse ?ev) True (m1\<lparr>events := events mc\<rparr>) = (Returns (), m')"
    using m'(1) by (simp add: dispatch_def)
  have last: "last (events m1) = ?ev" using evs by simp
  from evs un have res: "uout = Returns (Some ?ev) \<and> m2 = m'"
  proof (cases rule: undo_cases)
    case (throws e)
    then show ?thesis using d by simp
  next
    case returns
    then show ?thesis using d by simp
  qed
  have inside: "r1 rg \<le> r \<and> r < r1 rg + length snap
                    \<and> c1 rg \<le> c \<and> c < c1 rg + length (snap ! (r - r1 rg))"
    using inr sc(1) sc(2) by linarith
  then have cell: "slot (gridOf m2 ?nm) r c = Some (snap ! (r - r1 rg) ! (c - c1 rg))"
    using m'(2) res by simp
  show ?thesis using res last cell sc(3) sc(4) by simp
qed (simp_all)

theorem setValues_undo_restores_witness:
  "fst sampleEdit = Returns ()
   \<and> slot (gridOf sampleBook ''Sheet1'') 0 0
       = Some \<lparr>val = Str ''New Value'', formula = None, format = None, provenance = None\<rparr>
   \<and> slot (gridOf (snd sampleEdit) ''Sheet1'') 0 0
       = Some \<lparr>val = Str ''Changed'', formula = None, format = None, provenance = None\<rparr>
   \<and> slot (gridOf (snd (undo (snd sampleEdit))) ''Sheet1'') 0 0
       = Some \<lparr>val = Str ''New Value'', formula = None, format = None, provenance = None\<rparr>"
proof -
  have f: "fst sampleEdit = Returns ()"
    by code_simp
  have a: "setValues cellA1 [[Str ''Changed'']] None sampleBook = (Returns (), snd sampleEdit)"
    using f by (metis sampleEdit_def prod.collapse)
  have b: "undo (snd sampleEdit) = (fst (undo (snd sampleEdit)), snd (undo (snd sampleEdit)))"
    by simp
  have c: "slot (gridOf sampleBook ''Sheet1'') 0 0
       = Some \<lparr>val = Str ''New Value'', formula = None, format = None, provenance = None\<rparr>"
    by code_simp
  have d: "slot (gridOf (snd sampleEdit) ''Sheet1'') 0 0
       = Some \<lparr>val = Str ''Changed'', formula = None, format = None, provenance = None\<rparr>"
    by code_simp
  have e: "sheet cellA1 = ''Sheet1''" "r1 cellA1 = 0" "r2 cellA1 = 0" "c1 cellA1 = 0" "c2 cellA1 = 0"
    by (simp_all add: cellA1_def)
  note t = setValues_undo_restores [OF a b, of 0 0]
  have g: "slot (gridOf (snd (undo (snd sampleEdit))) ''Sheet1'') 0 0
       = Some \<lparr>val = Str ''New Value'', formula = None, format = None, provenance = None\<rparr>"
    using t c by (simp add: e)
  show ?thesis using f c d g by simp
qed

subsection \<open>Evaluation only grows the grid\<close>

lemma growsI:
  assumes "length g \<le> length g'"
    and "\<And>r. r < length g \<Longrightarrow> length (g ! r) \<le> length (g' ! r)"
    and "\<And>r c x. slot g r c = Some x \<Longrightarrow> \<exists>v. slot g' r c = Some (x\<lparr>val := v\<rparr>)"
    and "\<And>r c y. slot g r c = None \<Longrightarrow> slot g' r c = Some y \<Longrightarrow> \<exists>v. y = defaultCell\<lparr>val := v\<rparr>"
  shows "grows g g'"
  unfolding grows_def using assms by blast

lemma grows_length: "grows g g' \<Longrightarrow> length g \<le> length g'"
  unfolding grows_def by blast

lemma grows_row: "grows g g' \<Longrightarrow> r < length g \<Longrightarrow> length (g ! r) \<le> length (g' ! r)"
  unfolding grows_def by blast

lemma grows_some: "grows g g' \<Longrightarrow> slot g r c = Some x \<Longrightarrow> \<exists>v. slot g' r c = Some (x\<lparr>val := v\<rparr>)"
  unfolding grows_def by blast

lemma grows_new:
  "grows g g' \<Longrightarrow> slot g r c = None \<Longrightarrow> slot g' r c = Some y \<Longrightarrow> \<exists>v. y = defaultCell\<lparr>val := v\<rparr>"
  unfolding grows_def by blast

lemma grows_none: "grows g g' \<Longrightarrow> slot g r c = None \<Longrightarrow> slot g' r c = Some y \<Longrightarrow> formula y = None"
  using grows_new [of g g' r c y] by (auto simp: defaultCell_def)

lemma grows_refl: "grows g g"
proof (rule growsI)
  fix r c x assume "slot g r c = Some x"
  then have "slot g r c = Some (x\<lparr>val := val x\<rparr>)" by simp
  then show "\<exists>v. slot g r c = Some (x\<lparr>val := v\<rparr>)" by (rule exI)
qed simp_all

lemma grows_trans:
  assumes "grows a b" "grows b c"
  shows "grows a c"
proof (rule growsI)
  show "length a \<le> length c" using grows_length [OF assms(1)] grows_length [OF assms(2)] by simp
next
  fix r assume r: "r < length a"
  then have "r < length b" using grows_length [OF assms(1)] by simp
  then show "length (a ! r) \<le> length (c ! r)"
    using grows_row [OF assms(1) r] grows_row [OF assms(2), of r] by simp
next
  fix r col x assume "slot a r col = Some x"
  then obtain v where "slot b r col = Some (x\<lparr>val := v\<rparr>)"
    using grows_some [OF assms(1)] by blast
  then obtain w where "slot c r col = Some (x\<lparr>val := v\<rparr>\<lparr>val := w\<rparr>)"
    using grows_some [OF assms(2)] by blast
  then have "slot c r col = Some (x\<lparr>val := w\<rparr>)" by simp
  then show "\<exists>v. slot c r col = Some (x\<lparr>val := v\<rparr>)" by (rule exI)
next
  fix r col y assume a: "slot a r col = None" and c: "slot c r col = Some y"
  show "\<exists>v. y = defaultCell\<lparr>val := v\<rparr>"
  proof (cases "slot b r col")
    case None
    then show ?thesis using grows_new [OF assms(2) None c] by simp
  next
    case (Some z)
    obtain u where fz: "z = defaultCell\<lparr>val := u\<rparr>" using grows_new [OF assms(1) a Some] by blast
    obtain w where "slot c r col = Some (z\<lparr>val := w\<rparr>)"
      using grows_some [OF assms(2) Some] by blast
    then have "y = defaultCell\<lparr>val := w\<rparr>" using c fz by simp
    then show ?thesis by (rule exI)
  qed
qed

lemma grows_fcells:
  assumes "grows g g'"
  shows "fcells g' = fcells g"
proof -
  have "\<And>r c. (\<exists>x. slot g' r c = Some x \<and> formula x \<noteq> None) \<longleftrightarrow> (\<exists>x. slot g r c = Some x \<and> formula x \<noteq> None)"
  proof -
    fix r c
    show "(\<exists>x. slot g' r c = Some x \<and> formula x \<noteq> None) \<longleftrightarrow> (\<exists>x. slot g r c = Some x \<and> formula x \<noteq> None)"
    proof (cases "slot g r c")
      case None
      then show ?thesis using grows_none [OF assms None] by auto
    next
      case (Some x)
      then obtain v where "slot g' r c = Some (x\<lparr>val := v\<rparr>)" using grows_some [OF assms] by blast
      then show ?thesis using Some by simp
    qed
  qed
  then show ?thesis unfolding fcells_def by simp
qed

lemma finite_fcells: "finite (fcells g)"
proof -
  have "fcells g \<subseteq> (\<lambda>(r, c). (int r, int c)) ` (Sigma {..<length g} (\<lambda>r. {..<length (g ! r)}))"
    by (auto simp: fcells_def slot_def image_iff split: if_splits)
  moreover have "finite (Sigma {..<length g} (\<lambda>r. {..<length (g ! r)}))" by simp
  ultimately show ?thesis by (meson finite_imageI finite_subset)
qed

lemma finite_todo: "finite (todo nm st)"
  unfolding todo_def using finite_fcells by simp

lemma ext_refl: "map_of (sheets (fst st)) nm \<noteq> None \<Longrightarrow> ext nm st st"
  by (simp add: ext_def grows_refl)

lemma ext_trans:
  assumes "ext nm a b" "ext nm b c"
  shows "ext nm a c"
proof -
  have "grows (gridOf (fst a) nm) (gridOf (fst c) nm)"
    using assms by (auto simp: ext_def intro: grows_trans)
  then show ?thesis using assms by (auto simp: ext_def)
qed

lemma ext_todo:
  assumes "ext nm st st'"
  shows "todo nm st' \<subseteq> todo nm st"
proof -
  have "fcells (gridOf (fst st') nm) = fcells (gridOf (fst st) nm)"
    using assms by (simp add: ext_def grows_fcells)
  then show ?thesis using assms unfolding todo_def ext_def by auto
qed

lemma ext_card:
  assumes "ext nm st st'" "card (todo nm st) \<le> k"
  shows "card (todo nm st') \<le> k"
proof -
  have "card (todo nm st') \<le> card (todo nm st)"
    by (rule card_mono [OF finite_todo ext_todo [OF assms(1)]])
  then show ?thesis using assms(2) by simp
qed

lemma ext_hasSheet: "ext nm st st' \<Longrightarrow> map_of (sheets (fst st')) nm \<noteq> None"
  by (simp add: ext_def)

subsection \<open>Computations that end\<close>

lemma totI:
  assumes "\<And>st. map_of (sheets (fst st)) nm \<noteq> None \<Longrightarrow> card (todo nm st) \<le> k
      \<Longrightarrow> \<exists>out st'. f st = Some (out, st') \<and> ext nm st st'"
  shows "tot nm k f"
  using assms unfolding tot_def by blast

lemma totD:
  assumes "tot nm k f" "map_of (sheets (fst st)) nm \<noteq> None" "card (todo nm st) \<le> k"
  obtains out st' where "f st = Some (out, st')" "ext nm st st'"
  using assms unfolding tot_def by blast

subsection \<open>The steps of an evaluation\<close>

lemma grows_padded: "grows g (padded nr nc g)"
proof (rule growsI)
  show "length g \<le> length (padded nr nc g)" by (simp add: length_padded)
next
  fix r assume "r < length g"
  then show "length (g ! r) \<le> length (padded nr nc g ! r)"
    by (simp add: padded_nth length_padRow)
next
  fix r c x assume "slot g r c = Some x"
  then have "r < length g \<and> c < length (g ! r) \<and> g ! r ! c = Some x"
    by (simp add: slot_def split: if_splits)
  then have "slot (padded nr nc g) r c = Some (x\<lparr>val := val x\<rparr>)"
    by (simp add: slot_padded)
  then show "\<exists>v. slot (padded nr nc g) r c = Some (x\<lparr>val := v\<rparr>)" by (rule exI)
next
  fix r c y assume a: "slot g r c = None" and b: "slot (padded nr nc g) r c = Some y"
  show "\<exists>v. y = defaultCell\<lparr>val := v\<rparr>"
  proof (cases "r < length g \<and> c < length (g ! r)")
    case True
    then have "slot (padded nr nc g) r c = g ! r ! c" by (simp add: slot_padded)
    moreover have "slot g r c = g ! r ! c" using True by (simp add: slot_def)
    ultimately show ?thesis using a b by simp
  next
    case False
    then have "y = defaultCell" using b by (simp add: slot_padded split: if_splits)
    then have "y = defaultCell\<lparr>val := val defaultCell\<rparr>" by simp
    then show ?thesis by (rule exI)
  qed
qed

lemma getCell_effect:
  assumes hs: "map_of (sheets m) nm \<noteq> None"
  obtains m1 where "getCell nm r c m = (readCell (gridOf m1 nm) r c, m1)"
    "map_of (sheets m1) nm \<noteq> None"
    "gridOf m1 nm = padded (r + 1) (c + 1) (gridOf m nm)"
    "events m1 = events m"
proof -
  obtain o1 m1 where e: "ensureSize nm (r + 1) (c + 1) m = (o1, m1)"
    by (cases "ensureSize nm (r + 1) (c + 1) m")
  note eg = ensureSize_grid [OF hs e]
  obtain s where s: "map_of (sheets m1) nm = Some s" using eg by auto
  have g: "gridOf m1 nm = rows s" using s by (simp add: gridOf_def)
  have "getCell nm r c m = (readCell (gridOf m1 nm) r c, m1)"
    using e eg s g by (simp add: getCell_def getSheet_def)
  then show ?thesis using that eg ensureSize_events [OF e] by simp
qed

lemma readCell_Some:
  assumes "readCell g r c = Returns (Some x)"
  shows "0 \<le> r \<and> 0 \<le> c \<and> slot g (nat r) (nat c) = Some x"
  using assms by (auto simp: readCell_def slot_def Let_def split: if_splits)

lemma slot_update:
  "slot (g[r := (g ! r)[c := y]]) r' c' =
     (if r' = r \<and> c' = c \<and> r < length g \<and> c < length (g ! r) then y else slot g r' c')"
proof (cases "r < length g")
  case False
  then show ?thesis by (simp add: list_update_beyond)
next
  case True
  show ?thesis
  proof (cases "r' = r")
    case r: True
    show ?thesis
    proof (cases "c < length (g ! r)")
      case c: True
      then show ?thesis using True r by (simp add: slot_def nth_list_update)
    next
      case c: False
      then show ?thesis using True r by (simp add: slot_def)
    qed
  next
    case False
    then show ?thesis using True by (simp add: slot_def nth_list_update)
  qed
qed

lemma grows_setval:
  assumes "slot g r c = Some x"
  shows "grows g (g[r := (g ! r)[c := Some (x\<lparr>val := v\<rparr>)]])"
proof (rule growsI)
  show "length g \<le> length (g[r := (g ! r)[c := Some (x\<lparr>val := v\<rparr>)]])" by simp
next
  fix i assume i: "i < length g"
  show "length (g ! i) \<le> length (g[r := (g ! r)[c := Some (x\<lparr>val := v\<rparr>)]] ! i)"
  proof (cases "r < length g")
    case True
    then show ?thesis using i by (simp add: nth_list_update)
  next
    case False
    then show ?thesis by (simp add: list_update_beyond)
  qed
next
  fix i j z assume z: "slot g i j = Some z"
  show "\<exists>w. slot (g[r := (g ! r)[c := Some (x\<lparr>val := v\<rparr>)]]) i j = Some (z\<lparr>val := w\<rparr>)"
  proof (cases "i = r \<and> j = c")
    case True
    then have "z = x" using z assms by simp
    then have "slot (g[r := (g ! r)[c := Some (x\<lparr>val := v\<rparr>)]]) i j = Some (z\<lparr>val := v\<rparr>)"
      using True assms by (simp add: slot_update slot_def split: if_splits)
    then show ?thesis by (rule exI)
  next
    case False
    then have "slot (g[r := (g ! r)[c := Some (x\<lparr>val := v\<rparr>)]]) i j = Some (z\<lparr>val := val z\<rparr>)"
      using z by (auto simp: slot_update)
    then show ?thesis by (rule exI)
  qed
next
  fix i j y assume "slot g i j = None" "slot (g[r := (g ! r)[c := Some (x\<lparr>val := v\<rparr>)]]) i j = Some y"
  then show "\<exists>w. y = defaultCell\<lparr>val := w\<rparr>" using assms by (auto simp: slot_update split: if_splits)
qed

lemma setCellValue_effect:
  assumes hs: "map_of (sheets m) nm \<noteq> None" and sl: "slot (gridOf m nm) r c = Some x"
  shows "map_of (sheets (setCellValue nm (int r) (int c) v m)) nm \<noteq> None"
    and "gridOf (setCellValue nm (int r) (int c) v m) nm =
           (gridOf m nm)[r := (gridOf m nm ! r)[c := Some (x\<lparr>val := v\<rparr>)]]"
    and "events (setCellValue nm (int r) (int c) v m) = events m"
proof -
  obtain s where s: "map_of (sheets m) nm = Some s" using hs by auto
  have g: "gridOf m nm = rows s" using s by (simp add: gridOf_def)
  have in1: "r < length (rows s)" "c < length (rows s ! r)" "rows s ! r ! c = Some x"
    using sl g by (auto simp: slot_def split: if_splits)
  have e: "setCellValue nm (int r) (int c) v m =
      putSheet nm (s\<lparr>rows := (rows s)[r := (rows s ! r)[c := Some (x\<lparr>val := v\<rparr>)]]\<rparr>) m"
    using s in1 by (simp add: setCellValue_def)
  show "map_of (sheets (setCellValue nm (int r) (int c) v m)) nm \<noteq> None"
    by (simp add: e map_of_putSheet)
  show "gridOf (setCellValue nm (int r) (int c) v m) nm =
           (gridOf m nm)[r := (gridOf m nm ! r)[c := Some (x\<lparr>val := v\<rparr>)]]"
    using hs by (simp add: e gridOf_putSheet g)
  show "events (setCellValue nm (int r) (int c) v m) = events m"
    by (simp add: e)
qed

lemma setCellValue_ext:
  assumes hs: "map_of (sheets m) nm \<noteq> None" and sl: "slot (gridOf m nm) r c = Some x"
  shows "ext nm (m, seen) (setCellValue nm (int r) (int c) v m, seen)"
  using setCellValue_effect [OF hs sl, of v] grows_setval [OF sl, of v]
  by (simp add: ext_def)

lemma getCell_ext:
  assumes "map_of (sheets m) nm \<noteq> None" "getCell nm r c m = (out, m1)" "seen \<subseteq> seen'"
  shows "ext nm (m, seen) (m1, seen')"
proof -
  obtain m1' where g: "getCell nm r c m = (readCell (gridOf m1' nm) r c, m1')"
    "map_of (sheets m1') nm \<noteq> None"
    "gridOf m1' nm = padded (r + 1) (c + 1) (gridOf m nm)"
    "events m1' = events m"
    using getCell_effect [OF assms(1)] by blast
  then have "m1' = m1" using assms(2) by simp
  then show ?thesis using g assms(3) by (simp add: ext_def grows_padded)
qed

lemma getCell_Some:
  assumes "map_of (sheets m) nm \<noteq> None" "getCell nm r c m = (Returns (Some x), m1)"
  shows "0 \<le> r \<and> 0 \<le> c \<and> slot (gridOf m1 nm) (nat r) (nat c) = Some x
         \<and> map_of (sheets m1) nm \<noteq> None
         \<and> gridOf m1 nm = padded (r + 1) (c + 1) (gridOf m nm)"
proof -
  obtain m1' where g: "getCell nm r c m = (readCell (gridOf m1' nm) r c, m1')"
    "map_of (sheets m1') nm \<noteq> None"
    "gridOf m1' nm = padded (r + 1) (c + 1) (gridOf m nm)"
    using getCell_effect [OF assms(1)] by blast
  then have e: "m1' = m1" "readCell (gridOf m1 nm) r c = Returns (Some x)" using assms(2) by simp_all
  show ?thesis using readCell_Some [OF e(2)] g e(1) by simp
qed

subsection \<open>The helpers of the evaluator end when the recursive call does\<close>

lemma tot_step:
  assumes "tot nm k f" "map_of (sheets (fst st)) nm \<noteq> None" "card (todo nm st) \<le> k"
  obtains out st' where "f st = Some (out, st')" "ext nm st st'"
    "map_of (sheets (fst st')) nm \<noteq> None" "card (todo nm st') \<le> k"
proof -
  obtain out st' where a: "f st = Some (out, st')" "ext nm st st'"
    using totD [OF assms] by blast
  show ?thesis using that [OF a] ext_hasSheet [OF a(2)] ext_card [OF a(2) assms(3)] by simp
qed

lemma evalRef_tot:
  assumes ev: "\<And>r c. tot nm k (ev nm r c)"
  shows "tot nm k (evalRef J ev nm a1)"
proof (rule totI)
  fix st :: est
  assume hs: "map_of (sheets (fst st)) nm \<noteq> None" and cd: "card (todo nm st) \<le> k"
  show "\<exists>out st'. evalRef J ev nm a1 st = Some (out, st') \<and> ext nm st st'"
  proof (cases "a1ToRc a1")
    case (Inl e)
    then show ?thesis using ext_refl [OF hs] by (simp add: evalRef_def)
  next
    case (Inr rc)
    obtain r c where rc: "rc = (r, c)" by (cases rc)
    obtain out st' where a: "ev nm r c st = Some (out, st')" "ext nm st st'"
      using totD [OF ev hs cd] by blast
    show ?thesis
    proof (cases out)
      case (Throws e)
      then show ?thesis using Inr rc a by (simp add: evalRef_def)
    next
      case (Returns v)
      then show ?thesis using Inr rc a by (cases v) (simp_all add: evalRef_def)
    qed
  qed
qed

lemma sumCells_tot:
  assumes ev: "\<And>r c. tot nm k (ev nm r c)"
  shows "tot nm k (sumCells J ev nm ps acc)"
proof (rule totI)
  fix st :: est
  assume "map_of (sheets (fst st)) nm \<noteq> None" "card (todo nm st) \<le> k"
  then show "\<exists>out st'. sumCells J ev nm ps acc st = Some (out, st') \<and> ext nm st st'"
  proof (induction ps arbitrary: acc st)
    case Nil
    then show ?case using ext_refl by simp
  next
    case (Cons p ps)
    obtain r c where p: "p = (r, c)" by (cases p)
    obtain out st1 where a: "ev nm r c st = Some (out, st1)" "ext nm st st1"
      "map_of (sheets (fst st1)) nm \<noteq> None" "card (todo nm st1) \<le> k"
      using tot_step [OF ev Cons.prems] by blast
    show ?case
    proof (cases out)
      case (Throws e)
      then show ?thesis using p a by simp
    next
      case (Returns v)
      let ?n = "case v of Num x \<Rightarrow> x | _ \<Rightarrow> toNumber J v"
      obtain out2 st2 where b:
        "sumCells J ev nm ps (if isNaN ?n then acc else js_add J acc ?n) st1 = Some (out2, st2)"
        "ext nm st1 st2"
        using Cons.IH [OF a(3) a(4)] by blast
      have "sumCells J ev nm (p # ps) acc st = Some (out2, st2)"
        using p a(1) Returns b(1) by (simp add: Let_def)
      then show ?thesis using ext_trans [OF a(2) b(2)] by simp
    qed
  qed
qed

lemma sumRange_tot:
  assumes ev: "\<And>r c. tot nm k (ev nm r c)"
  shows "tot nm k (sumRange J ev nm t)"
proof (rule totI)
  fix st :: est
  assume hs: "map_of (sheets (fst st)) nm \<noteq> None" and cd: "card (todo nm st) \<le> k"
  show "\<exists>out st'. sumRange J ev nm t st = Some (out, st') \<and> ext nm st st'"
  proof (cases "matchRange t")
    case None
    then show ?thesis using ext_refl [OF hs] by (simp add: sumRange_def)
  next
    case (Some ab)
    obtain ta tb where ab: "ab = (ta, tb)" by (cases ab)
    show ?thesis
    proof (cases "a1ToRc ta")
      case (Inl e)
      then show ?thesis using Some ab ext_refl [OF hs] by (simp add: sumRange_def)
    next
      case ia: (Inr pa)
      obtain ar ac where pa: "pa = (ar, ac)" by (cases pa)
      show ?thesis
      proof (cases "a1ToRc tb")
        case (Inl e)
        then show ?thesis using Some ab ia pa ext_refl [OF hs] by (simp add: sumRange_def)
      next
        case ib: (Inr pb)
        obtain br bc where pb: "pb = (br, bc)" by (cases pb)
        let ?ps = "concat (map (\<lambda>r. map (\<lambda>c. (r, c)) [min ac bc .. max ac bc]) [min ar br .. max ar br])"
        obtain out st' where "sumCells J ev nm ?ps (Finite 0) st = Some (out, st')" "ext nm st st'"
          using totD [OF sumCells_tot [where ev = ev and nm = nm and k = k, OF ev] hs cd] by blast
        then show ?thesis using Some ab ia pa ib pb by (simp add: sumRange_def)
      qed
    qed
  qed
qed

lemma sumTerm_tot:
  assumes ev: "\<And>r c. tot nm k (ev nm r c)"
  shows "tot nm k (sumTerm J ev nm t)"
proof (rule totI)
  fix st :: est
  assume hs: "map_of (sheets (fst st)) nm \<noteq> None" and cd: "card (todo nm st) \<le> k"
  show "\<exists>out st'. sumTerm J ev nm t st = Some (out, st') \<and> ext nm st st'"
  proof (cases "matchRange (trim t) \<noteq> None")
    case True
    obtain out st' where a: "sumRange J ev nm (trim t) st = Some (out, st')" "ext nm st st'"
      using totD [OF sumRange_tot [where ev = ev and nm = nm and k = k, OF ev] hs cd] by blast
    show ?thesis using True a by (cases out) (simp_all add: sumTerm_def Let_def)
  next
    case False
    show ?thesis
    proof (cases "matchA1 (trim t) \<noteq> None")
      case True
      obtain out st' where a: "evalRef J ev nm (trim t) st = Some (out, st')" "ext nm st st'"
        using totD [OF evalRef_tot [where ev = ev and nm = nm and k = k, OF ev] hs cd] by blast
      show ?thesis using False True a by (simp add: sumTerm_def Let_def)
    next
      case nr: False
      show ?thesis using False nr ext_refl [OF hs] by (simp add: sumTerm_def Let_def)
    qed
  qed
qed

lemma sumTerms_tot:
  assumes ev: "\<And>r c. tot nm k (ev nm r c)"
  shows "tot nm k (sumTerms J ev nm ts acc)"
proof (rule totI)
  fix st :: est
  assume "map_of (sheets (fst st)) nm \<noteq> None" "card (todo nm st) \<le> k"
  then show "\<exists>out st'. sumTerms J ev nm ts acc st = Some (out, st') \<and> ext nm st st'"
  proof (induction ts arbitrary: acc st)
    case Nil
    then show ?case using ext_refl by simp
  next
    case (Cons t ts)
    obtain out st1 where a: "sumTerm J ev nm t st = Some (out, st1)" "ext nm st st1"
      "map_of (sheets (fst st1)) nm \<noteq> None" "card (todo nm st1) \<le> k"
      using tot_step [OF sumTerm_tot [where ev = ev and nm = nm and k = k, OF ev] Cons.prems] by blast
    show ?case
    proof (cases out)
      case (Throws e)
      then show ?thesis using a by simp
    next
      case (Returns v)
      obtain out2 st2 where b:
        "sumTerms J ev nm ts (js_add J acc (toNumber J v)) st1 = Some (out2, st2)" "ext nm st1 st2"
        using Cons.IH [OF a(3) a(4)] by blast
      show ?thesis
      proof (cases "\<exists>s. v = Str s")
        case True
        then obtain s where "v = Str s" by blast
        then have "sumTerms J ev nm (t # ts) acc st = Some (Returns (Str s), st1)"
          using a(1) Returns by simp
        then show ?thesis using a(2) by blast
      next
        case False
        then have "sumTerms J ev nm (t # ts) acc st = Some (out2, st2)"
          using a(1) Returns b(1) by (cases v) simp_all
        then show ?thesis using ext_trans [OF a(2) b(2)] by simp
      qed
    qed
  qed
qed

lemma sumArgs_tot:
  assumes ev: "\<And>r c. tot nm k (ev nm r c)"
  shows "tot nm k (sumArgs J ev nm args)"
  using sumTerms_tot [where ev = ev and nm = nm and k = k, OF ev] unfolding sumArgs_def [abs_def] by simp

lemma asString_tot:
  assumes "tot nm k f"
  shows "tot nm k (\<lambda>st. asString J (f st))"
proof (rule totI)
  fix st :: est
  assume hs: "map_of (sheets (fst st)) nm \<noteq> None" and cd: "card (todo nm st) \<le> k"
  obtain out st' where a: "f st = Some (out, st')" "ext nm st st'"
    using totD [OF assms hs cd] by blast
  show "\<exists>out st'. asString J (f st) = Some (out, st') \<and> ext nm st st'"
    using a by (cases out) (simp_all add: asString_def)
qed

lemma replaceHits_tot:
  assumes f: "\<And>a. tot nm k (f a)"
  shows "tot nm k (replaceHits f segs)"
proof (rule totI)
  fix st :: est
  assume "map_of (sheets (fst st)) nm \<noteq> None" "card (todo nm st) \<le> k"
  then show "\<exists>out st'. replaceHits f segs st = Some (out, st') \<and> ext nm st st'"
  proof (induction segs arbitrary: st)
    case Nil
    then show ?case using ext_refl by simp
  next
    case (Cons sg segs)
    show ?case
    proof (cases sg)
      case (Lit x)
      obtain out st1 where a: "replaceHits f segs st = Some (out, st1)" "ext nm st st1"
        using Cons.IH [OF Cons.prems] by blast
      show ?thesis using Lit a by (cases out) simp_all
    next
      case (Hit a)
      obtain out st1 where b: "f a st = Some (out, st1)" "ext nm st st1"
        "map_of (sheets (fst st1)) nm \<noteq> None" "card (todo nm st1) \<le> k"
        using tot_step [OF f Cons.prems] by blast
      show ?thesis
      proof (cases out)
        case (Throws e)
        then show ?thesis using Hit b by simp
      next
        case (Returns t)
        obtain out2 st2 where c: "replaceHits f segs st1 = Some (out2, st2)" "ext nm st1 st2"
          using Cons.IH [OF b(3) b(4)] by blast
        show ?thesis using Hit b(1) Returns c(1) ext_trans [OF b(2) c(2)]
          by (cases out2) simp_all
      qed
    qed
  qed
qed

lemma substitute_tot:
  assumes ev: "\<And>r c. tot nm k (ev nm r c)"
  shows "tot nm k (substitute J ev nm expr)"
proof (rule totI)
  fix st :: est
  assume hs: "map_of (sheets (fst st)) nm \<noteq> None" and cd: "card (todo nm st) \<le> k"
  have f1: "\<And>a. tot nm k (\<lambda>st'. asString J (sumArgs J ev nm a st'))"
    by (rule asString_tot) (rule sumArgs_tot [where ev = ev and nm = nm and k = k, OF ev])
  have f2: "\<And>a. tot nm k (\<lambda>st'. asString J (evalRef J ev nm a st'))"
    by (rule asString_tot) (rule evalRef_tot [where ev = ev and nm = nm and k = k, OF ev])
  obtain out st1 where a:
    "replaceHits (\<lambda>args st'. asString J (sumArgs J ev nm args st')) (sumScan 0 expr) st = Some (out, st1)"
    "ext nm st st1" "map_of (sheets (fst st1)) nm \<noteq> None" "card (todo nm st1) \<le> k"
    using tot_step [OF replaceHits_tot [of nm k "\<lambda>args st'. asString J (sumArgs J ev nm args st')", OF f1] hs cd]
    by blast
  show "\<exists>out st'. substitute J ev nm expr st = Some (out, st') \<and> ext nm st st'"
  proof (cases out)
    case (Throws e)
    then show ?thesis using a by (simp add: substitute_def)
  next
    case (Returns expr1)
    obtain out2 st2 where b:
      "replaceHits (\<lambda>a1 st'. asString J (evalRef J ev nm a1 st')) (refScan False 0 expr1) st1 = Some (out2, st2)"
      "ext nm st1 st2"
      using totD [OF replaceHits_tot [of nm k "\<lambda>a1 st'. asString J (evalRef J ev nm a1 st')", OF f2] a(3) a(4)]
      by blast
    show ?thesis using a(1) Returns b(1) ext_trans [OF a(2) b(2)] by (simp add: substitute_def)
  qed
qed

subsection \<open>An evaluation ends\<close>

lemma finish_effect:
  "\<exists>v. finish J nm r c expr st = (Returns v, (setCellValue nm r c v (fst st), snd st))"
  by (simp add: finish_def Let_def)

lemma tot_mono: "tot nm k f \<Longrightarrow> k' \<le> k \<Longrightarrow> tot nm k' f"
  unfolding tot_def by (meson le_trans)

lemma todo_visit:
  assumes x: "slot (gridOf m nm) (nat r) (nat c) = Some x" "formula x \<noteq> None"
    and r: "0 \<le> r" "0 \<le> c" and key: "(nm, r, c) \<notin> seen"
  shows "card (todo nm (m, insert (nm, r, c) seen)) < card (todo nm (m, seen))"
proof -
  have "(int (nat r), int (nat c)) \<in> fcells (gridOf m nm)"
    unfolding fcells_def using x by blast
  then have mem: "(r, c) \<in> todo nm (m, seen)" using r key by (simp add: todo_def)
  have "todo nm (m, insert (nm, r, c) seen) = todo nm (m, seen) - {(r, c)}"
    by (auto simp: todo_def)
  moreover have "card (todo nm (m, seen) - {(r, c)}) < card (todo nm (m, seen))"
    by (rule card_Diff1_less [OF finite_todo mem])
  ultimately show ?thesis by simp
qed

lemma todo_grid:
  assumes "grows (gridOf m nm) (gridOf m1 nm)"
  shows "todo nm (m1, seen) = todo nm (m, seen)"
  using grows_fcells [OF assms] by (simp add: todo_def)

lemma evaluateCell_total:
  assumes "map_of (sheets (fst st)) nm \<noteq> None" "card (todo nm st) < n"
  shows "\<exists>out st' m1. evaluateCell J n nm r c st = Some (out, st')
           \<and> map_of (sheets m1) nm \<noteq> None
           \<and> gridOf m1 nm = padded (r + 1) (c + 1) (gridOf (fst st) nm)
           \<and> events m1 = events (fst st)
           \<and> ext nm (m1, insert (nm, r, c) (snd st)) st'"
  using assms
proof (induction n arbitrary: r c st)
  case 0
  then show ?case by simp
next
  case (Suc n)
  obtain m seen where st: "st = (m, seen)" by (cases st)
  have hs: "map_of (sheets m) nm \<noteq> None" using Suc.prems(1) st by simp
  obtain m1 where g: "getCell nm r c m = (readCell (gridOf m1 nm) r c, m1)"
    "map_of (sheets m1) nm \<noteq> None"
    "gridOf m1 nm = padded (r + 1) (c + 1) (gridOf m nm)"
    "events m1 = events m"
    using getCell_effect [OF hs] by blast
  let ?key = "(nm, r, c)"
  let ?seen = "insert ?key seen"
  let ?st1 = "(m1, ?seen)"
  have hs1: "map_of (sheets (fst ?st1)) nm \<noteq> None" using g(2) by simp
  have refl1: "ext nm ?st1 ?st1" by (rule ext_refl [OF hs1])
  have goal: "\<exists>out st'. evaluateCell J (Suc n) nm r c st = Some (out, st') \<and> ext nm ?st1 st'"
  proof (cases "readCell (gridOf m1 nm) r c")
    case (Throws e)
    then show ?thesis using g(1) st refl1 by (auto simp: evaluateCellBody_def insert_absorb)
  next
    case (Returns x)
    show ?thesis
    proof (cases x)
      case None
      then show ?thesis using g(1) st refl1 Returns by (auto simp: evaluateCellBody_def insert_absorb)
    next
      case (Some cell)
      have pos: "0 \<le> r" "0 \<le> c" and sl: "slot (gridOf m1 nm) (nat r) (nat c) = Some cell"
        using readCell_Some [of "gridOf m1 nm" r c cell] Returns Some by simp_all
      have sv: "\<And>v m' sn. map_of (sheets m') nm \<noteq> None \<Longrightarrow> ext nm ?st1 (m', sn)
          \<Longrightarrow> ext nm ?st1 (setCellValue nm r c v m', sn)"
      proof -
        fix v m' sn
        assume h: "map_of (sheets m') nm \<noteq> None" and e: "ext nm ?st1 (m', sn)"
        then have "grows (gridOf m1 nm) (gridOf m' nm)" by (simp add: ext_def)
        then obtain w where "slot (gridOf m' nm) (nat r) (nat c) = Some (cell\<lparr>val := w\<rparr>)"
          using grows_some [OF _ sl] by blast
        then have "ext nm (m', sn) (setCellValue nm (int (nat r)) (int (nat c)) v m', sn)"
          using setCellValue_ext [OF h] by blast
        then show "ext nm ?st1 (setCellValue nm r c v m', sn)"
          using ext_trans [OF e] pos by simp
      qed
      show ?thesis
      proof (cases "?key \<in> seen")
        case True
        have "evaluateCell J (Suc n) nm r c st =
            Some (Returns (Str ''#REF!''), (setCellValue nm r c (Str ''#REF!'') m1, seen))"
          using g(1) st Returns Some True by (simp add: evaluateCellBody_def)
        moreover have "?seen = seen" using True by auto
        ultimately show ?thesis using sv [OF g(2), of seen "Str ''#REF!''"] refl1 by simp
      next
        case False
        let ?plain = "Some (Returns (orNull (val cell)), ?st1)"
        show ?thesis
        proof (cases "formula cell")
          case None
          then have "evaluateCell J (Suc n) nm r c st = ?plain"
            using g(1) st Returns Some False by (simp add: evaluateCellBody_def)
          then show ?thesis using refl1 by simp
        next
          case f: (Some ftext)
          show ?thesis
          proof (cases "ftext = [] \<or> \<not> startsWith ''='' (trim ftext)")
            case True
            then have "evaluateCell J (Suc n) nm r c st = ?plain"
              using g(1) st Returns Some False f by (auto simp: evaluateCellBody_def Let_def)
            then show ?thesis using refl1 by simp
          next
            case live: False
            have gr: "grows (gridOf m nm) (gridOf m1 nm)" using g(3) by (simp add: grows_padded)
            have "card (todo nm ?st1) < card (todo nm (m1, seen))"
              using todo_visit [OF sl _ pos False] f by simp
            then have lt: "card (todo nm ?st1) < card (todo nm st)"
              using todo_grid [OF gr] st by simp
            then have le: "card (todo nm ?st1) \<le> n - 1" and n0: "0 < n"
              using Suc.prems(2) by simp_all
            have ev: "\<And>r' c'. tot nm (n - 1) (evaluateCell J n nm r' c')"
            proof (rule totI)
              fix r' c' and st0 :: est
              assume h0: "map_of (sheets (fst st0)) nm \<noteq> None" and c0: "card (todo nm st0) \<le> n - 1"
              then have "card (todo nm st0) < n" using n0 by simp
              then obtain out st' m' where a: "evaluateCell J n nm r' c' st0 = Some (out, st')"
                  "map_of (sheets m') nm \<noteq> None"
                  "gridOf m' nm = padded (r' + 1) (c' + 1) (gridOf (fst st0) nm)"
                  "events m' = events (fst st0)"
                  "ext nm (m', insert (nm, r', c') (snd st0)) st'"
                using Suc.IH [OF h0] by blast
              have "ext nm st0 (m', insert (nm, r', c') (snd st0))"
                using a(2) a(3) a(4) by (auto simp: ext_def grows_padded)
              then have "ext nm st0 st'" using ext_trans a(5) by blast
              then show "\<exists>out st'. evaluateCell J n nm r' c' st0 = Some (out, st') \<and> ext nm st0 st'"
                using a(1) by blast
            qed
            obtain out2 st2 where sb:
              "substitute J (evaluateCell J n) nm (drop 1 (trim ftext)) ?st1 = Some (out2, st2)"
              "ext nm ?st1 st2"
              using totD [OF substitute_tot [where ev = "evaluateCell J n" and nm = nm and k = "n - 1", OF ev] hs1 le]
              by blast
            show ?thesis
            proof (cases out2)
              case (Throws e)
              then have "evaluateCell J (Suc n) nm r c st = Some (Throws e, st2)"
                using g(1) st Returns Some False f live sb(1) by (simp add: evaluateCellBody_def Let_def)
              then show ?thesis using sb(2) by simp
            next
              case r2: (Returns expr2)
              obtain v where fin: "finish J nm r c expr2 st2 =
                  (Returns v, (setCellValue nm r c v (fst st2), snd st2))"
                using finish_effect by blast
              have "evaluateCell J (Suc n) nm r c st =
                  Some (Returns v, (setCellValue nm r c v (fst st2), snd st2))"
                using g(1) st Returns Some False f live sb(1) r2 fin
                by (simp add: evaluateCellBody_def Let_def)
              moreover have "ext nm ?st1 (setCellValue nm r c v (fst st2), snd st2)"
                using sv [of "fst st2" "snd st2" v] sb(2) ext_hasSheet [OF sb(2)] by simp
              ultimately show ?thesis by simp
            qed
          qed
        qed
      qed
    qed
  qed
  from goal obtain out st' where
    "evaluateCell J (Suc n) nm r c st = Some (out, st')" "ext nm ?st1 st'" by blast
  then show ?case using g(2) g(3) g(4) st
    by (intro exI [of _ out] exI [of _ st'] exI [of _ m1]) simp
qed

subsection \<open>The shape of the grid after an evaluation\<close>

lemma padded_wide: "row \<in> set (padded nr nc g) \<Longrightarrow> nat nc \<le> length row"
  by (auto simp: padded_def padRow_def)

lemma padded_row_wide: "i < length (padded nr nc g) \<Longrightarrow> nat nc \<le> length (padded nr nc g ! i)"
  using padded_wide [of "padded nr nc g ! i" nr nc g] by simp

lemma readCell_padded:
  assumes "0 \<le> r" "0 \<le> c"
  shows "readCell (padded (r + 1) (c + 1) g) r c = Returns (slot (padded (r + 1) (c + 1) g) (nat r) (nat c))"
proof -
  let ?G = "padded (r + 1) (c + 1) g"
  have r: "nat r < length ?G" using assms by (simp add: length_padded)
  then have "nat (c + 1) \<le> length (?G ! nat r)" by (rule padded_row_wide)
  then have c: "nat c < length (?G ! nat r)" using assms by linarith
  have "\<not> int (length ?G) \<le> r" "\<not> int (length (?G ! nat r)) \<le> c"
    using r c assms by linarith+
  then show ?thesis using r c assms by (simp add: readCell_def slot_def Let_def)
qed

lemma evaluateCell_plain:
  assumes hs: "map_of (sheets m) nm \<noteq> None" and pos: "0 \<le> r" "0 \<le> c"
    and x: "slot (padded (r + 1) (c + 1) (gridOf m nm)) (nat r) (nat c) = Some x" "formula x = None"
    and key: "(nm, r, c) \<notin> seen"
  shows "\<exists>m1. evaluateCell J (Suc k) nm r c (m, seen) = Some (Returns (orNull (val x)), (m1, insert (nm, r, c) seen))
           \<and> gridOf m1 nm = padded (r + 1) (c + 1) (gridOf m nm)"
proof -
  obtain m1 where g: "getCell nm r c m = (readCell (gridOf m1 nm) r c, m1)"
    "gridOf m1 nm = padded (r + 1) (c + 1) (gridOf m nm)"
    using getCell_effect [OF hs] by metis
  have "readCell (gridOf m1 nm) r c = Returns (Some x)"
    using readCell_padded [OF pos] x(1) g(2) by simp
  then have "evaluateCell J (Suc k) nm r c (m, seen) = Some (Returns (orNull (val x)), (m1, insert (nm, r, c) seen))"
    using g(1) x(2) key by (simp add: evaluateCellBody_def)
  then show ?thesis using g(2) by blast
qed

text \<open>
  C10, as the code has it. Evaluating a cell at \<open>(r, c)\<close> of an existing sheet, with fuel
  above the number of unvisited formula cells, ends. Afterwards the sheet has at least
  \<open>r + 1\<close> rows, no row has been removed or shortened, every row that existed before or
  lies among the first \<open>r + 1\<close> has at least \<open>c + 1\<close> cells, and every cell that has
  appeared is a default cell, up to its value. When the cell has no formula and is
  visited for the first time, the evaluation returns its value and the grid is exactly
  the padded one, in which every row has at least \<open>c + 1\<close> cells. Rows that the
  evaluation of referenced cells adds later need not be that wide.
\<close>

theorem evaluateCell_pads:
  assumes hs: "map_of (sheets m) nm \<noteq> None" and pos: "0 \<le> r" "0 \<le> c"
    and fuel: "card (todo nm (m, seen)) < n"
  shows "\<exists>out m' seen'. evaluateCell J n nm r c (m, seen) = Some (out, (m', seen'))
      \<and> nat r + 1 \<le> length (gridOf m' nm)
      \<and> length (gridOf m nm) \<le> length (gridOf m' nm)
      \<and> (\<forall>i. i < max (length (gridOf m nm)) (nat r + 1) \<longrightarrow> nat c + 1 \<le> length (gridOf m' nm ! i))
      \<and> (\<forall>i. i < length (gridOf m nm) \<longrightarrow> length (gridOf m nm ! i) \<le> length (gridOf m' nm ! i))
      \<and> (\<forall>i j y. slot (gridOf m nm) i j = None \<longrightarrow> slot (gridOf m' nm) i j = Some y
            \<longrightarrow> (\<exists>v. y = defaultCell\<lparr>val := v\<rparr>))
      \<and> (\<forall>x. slot (padded (r + 1) (c + 1) (gridOf m nm)) (nat r) (nat c) = Some x
               \<and> formula x = None \<and> (nm, r, c) \<notin> seen \<longrightarrow>
            out = Returns (orNull (val x))
            \<and> gridOf m' nm = padded (r + 1) (c + 1) (gridOf m nm)
            \<and> (\<forall>row \<in> set (gridOf m' nm). nat c + 1 \<le> length row))"
proof -
  let ?g = "gridOf m nm"
  let ?G = "padded (r + 1) (c + 1) ?g"
  obtain out st' m1 where e: "evaluateCell J n nm r c (m, seen) = Some (out, st')"
      "gridOf m1 nm = ?G" "ext nm (m1, insert (nm, r, c) seen) st'"
    using evaluateCell_total [of "(m, seen)" nm n J r c] hs fuel by auto
  obtain m' seen' where st': "st' = (m', seen')" by (cases st')
  let ?g' = "gridOf m' nm"
  have gr1: "grows ?G ?g'" using e(2) e(3) st' by (simp add: ext_def)
  have gr: "grows ?g ?g'" using grows_trans [OF grows_padded gr1] .
  have lG: "length ?G = max (length ?g) (nat r + 1)" using pos by (simp add: length_padded nat_add_distrib)
  have a: "nat r + 1 \<le> length ?g'" using grows_length [OF gr1] lG by simp
  have b: "length ?g \<le> length ?g'" using grows_length [OF gr] .
  have c: "\<And>i. i < max (length ?g) (nat r + 1) \<Longrightarrow> nat c + 1 \<le> length (?g' ! i)"
  proof -
    fix i assume "i < max (length ?g) (nat r + 1)"
    then have i: "i < length ?G" using lG by simp
    have "nat (c + 1) \<le> length (?G ! i)" using i by (rule padded_row_wide)
    moreover have "length (?G ! i) \<le> length (?g' ! i)" using grows_row [OF gr1 i] .
    ultimately show "nat c + 1 \<le> length (?g' ! i)" using pos by linarith
  qed
  have d: "\<And>i. i < length ?g \<Longrightarrow> length (?g ! i) \<le> length (?g' ! i)"
    using grows_row [OF gr] .
  have f: "\<And>i j y. slot ?g i j = None \<Longrightarrow> slot ?g' i j = Some y \<Longrightarrow> \<exists>v. y = defaultCell\<lparr>val := v\<rparr>"
    using grows_new [OF gr] .
  have h: "\<And>x. slot ?G (nat r) (nat c) = Some x \<and> formula x = None \<and> (nm, r, c) \<notin> seen \<Longrightarrow>
            out = Returns (orNull (val x)) \<and> ?g' = ?G \<and> (\<forall>row \<in> set ?g'. nat c + 1 \<le> length row)"
  proof -
    fix x assume x: "slot ?G (nat r) (nat c) = Some x \<and> formula x = None \<and> (nm, r, c) \<notin> seen"
    obtain k where n: "n = Suc k" using fuel by (cases n) simp_all
    obtain m2 where p: "evaluateCell J (Suc k) nm r c (m, seen) =
          Some (Returns (orNull (val x)), (m2, insert (nm, r, c) seen))" "gridOf m2 nm = ?G"
      using evaluateCell_plain [OF hs pos, of x seen J k] x by auto
    have eq: "out = Returns (orNull (val x))" "m' = m2" using p(1) e(1) n st' by simp_all
    have "\<forall>row \<in> set ?G. nat c + 1 \<le> length row"
    proof
      fix row assume "row \<in> set ?G"
      then have "nat (c + 1) \<le> length row" by (rule padded_wide)
      then show "nat c + 1 \<le> length row" using pos by linarith
    qed
    then show "out = Returns (orNull (val x)) \<and> ?g' = ?G \<and> (\<forall>row \<in> set ?g'. nat c + 1 \<le> length row)"
      using eq p(2) by simp
  qed
  show ?thesis
    using e(1) st' a b c d f h
    by (intro exI [of _ out] exI [of _ m'] exI [of _ seen']) blast
qed

lemma fcells_bound: "card (fcells g) \<le> sum_list (map length g)"
proof -
  let ?S = "Sigma {..<length g} (\<lambda>r. {..<length (g ! r)})"
  have sub: "fcells g \<subseteq> (\<lambda>(r, c). (int r, int c)) ` ?S"
    by (auto simp: fcells_def slot_def image_iff split: if_splits)
  have fin: "finite ?S" by simp
  have "card (fcells g) \<le> card ((\<lambda>(r, c). (int r, int c)) ` ?S)"
    by (rule card_mono [OF finite_imageI [OF fin] sub])
  also have "\<dots> \<le> card ?S" by (rule card_image_le [OF fin])
  also have "card ?S = (\<Sum>r<length g. length (g ! r))" by simp
  also have "\<dots> = sum_list (map length g)"
    by (simp add: sum_list_sum_nth atLeast0LessThan)
  finally show ?thesis .
qed

lemma todo_bound: "card (todo nm (m, seen)) \<le> sum_list (map length (gridOf m nm))"
proof -
  have "todo nm (m, seen) \<subseteq> fcells (gridOf m nm)" by (auto simp: todo_def)
  then have "card (todo nm (m, seen)) \<le> card (fcells (gridOf m nm))"
    by (rule card_mono [OF finite_fcells])
  then show ?thesis using fcells_bound [of "gridOf m nm"] by simp
qed

lemma sampleRef_grid:
  "gridOf sampleRef ''Sheet1'' =
     [[Some defaultCell, Some \<lparr>val = Null, formula = Some ''=A2'', format = None, provenance = None\<rparr>]]"
  by code_simp

lemma sampleRef_sheet: "map_of (sheets sampleRef) ''Sheet1'' \<noteq> None"
  by code_simp

theorem evaluateCell_pads_witness:
  "map_of (sheets sampleRef) ''Sheet1'' \<noteq> None
   \<and> card (todo ''Sheet1'' (sampleRef, {})) < 3
   \<and> (\<exists>out m' seen'. evaluateCell sampleJs 3 ''Sheet1'' 0 1 (sampleRef, {}) = Some (out, (m', seen'))
         \<and> 1 \<le> length (gridOf m' ''Sheet1'')
         \<and> 2 \<le> length (gridOf m' ''Sheet1'' ! 0))"
proof -
  have fuel: "card (todo ''Sheet1'' (sampleRef, {})) < 3"
    using todo_bound [of "''Sheet1''" sampleRef "{}"] by (simp add: sampleRef_grid)
  obtain out m' seen' where e:
    "evaluateCell sampleJs 3 ''Sheet1'' 0 1 (sampleRef, {}) = Some (out, (m', seen'))"
    "nat 0 + 1 \<le> length (gridOf m' ''Sheet1'')"
    "\<forall>i. i < max (length (gridOf sampleRef ''Sheet1'')) (nat 0 + 1) \<longrightarrow> nat 1 + 1 \<le> length (gridOf m' ''Sheet1'' ! i)"
    using evaluateCell_pads [OF sampleRef_sheet _ _ fuel, of 0 1 sampleJs] by auto
  have "2 \<le> length (gridOf m' ''Sheet1'' ! 0)" using e(3) by (simp add: sampleRef_grid)
  then show ?thesis using sampleRef_sheet fuel e(1) e(2) by auto
qed

text \<open>
  The claim as stated fails: after evaluating B1 of the sample, whose formula refers to
  A2, the sheet has a second row with one cell only, fewer than the \<open>c + 1 = 2\<close> of the
  claim.
\<close>

theorem short_row_counterexample:
  "map_option (\<lambda>(out, st). (out, map length (gridOf (fst st) ''Sheet1'')))
     (evaluateCell sampleJs 3 ''Sheet1'' 0 1 (sampleRef, {}))
   = Some (Returns (Num (Finite 0)), [2, 1])"
  by code_simp

subsection \<open>Aggregation arguments\<close>

lemma splitOn_nonempty: "splitOn sep s \<noteq> []"
  by (induction s) (auto split: list.splits)

lemma splitOn_append:
  "sep \<notin> set t \<Longrightarrow> splitOn sep (t @ sep # rest) = t # splitOn sep rest"
  by (induction t) (auto split: list.splits)

lemma splitOn_single: "sep \<notin> set t \<Longrightarrow> splitOn sep t = [t]"
  by (induction t) (auto split: list.splits)

lemma colon_not_alpha: "\<not> isAlpha (CHR '':'')"
  by (simp add: isAlpha_def isUpper_def isLower_def)

lemma colon_not_digit: "\<not> isDigit (CHR '':'')"
  by (simp add: isDigit_def)

lemma matchA1_no_colon:
  assumes "matchA1 t \<noteq> None"
  shows "CHR '':'' \<notin> set t"
proof -
  have d: "list_all isDigit (dropWhile isAlpha t)"
    using assms by (auto simp: matchA1_def Let_def split: if_splits)
  have t: "t = takeWhile isAlpha t @ dropWhile isAlpha t" by simp
  have "CHR '':'' \<notin> set (takeWhile isAlpha t)"
    using colon_not_alpha by (auto dest: set_takeWhileD)
  moreover have "CHR '':'' \<notin> set (dropWhile isAlpha t)"
    using d colon_not_digit by (auto simp: list_all_iff)
  ultimately show ?thesis using t by (metis Un_iff set_append)
qed

lemma matchA1_not_range:
  assumes "matchA1 t \<noteq> None"
  shows "matchRange t = None"
proof -
  have d: "dropWhile (\<lambda>x. x \<noteq> CHR '':'') t = []"
    using matchA1_no_colon [OF assms] by (auto simp: dropWhile_eq_Nil_conv)
  show ?thesis unfolding matchRange_def d by simp
qed

lemma sumTerm_ref:
  assumes "matchA1 (trim t) \<noteq> None"
  shows "sumTerm J ev nm t st = evalRef J ev nm (trim t) st"
  using assms matchA1_not_range [OF assms] by (simp add: sumTerm_def Let_def)

lemma sumTerm_range_number:
  assumes "matchRange (trim t) \<noteq> None" "sumTerm J ev nm t st = Some (Returns v, st')"
  shows "\<exists>x. v = Num x"
  using assms by (auto simp: sumTerm_def Let_def split: option.splits outcome.splits prod.splits)

text \<open>
  C5. In an aggregation whose first argument \<open>t\<close> is a single cell reference, followed by
  a comma and any further arguments \<open>rest\<close> (a range, say): when evaluating the reference
  gives a string, as an error sentinel is, the aggregation gives that same string in the
  very state the evaluation of the reference left, so nothing of \<open>rest\<close> has been
  evaluated. And an argument that is a range, whenever its summation returns, gives a
  number, never a string: a range by itself yields no error sentinel. Inside the
  summation a cell whose result is a string that \<open>Number\<close> does not read (as it does not
  read a sentinel) adds nothing to the total.
\<close>

theorem sum_short_circuit:
  "(CHR '','' \<notin> set t \<and> matchA1 (trim t) \<noteq> None
      \<and> evalRef J (evaluateCell J n) nm (trim t) st = Some (Returns (Str s), st1)
    \<longrightarrow> sumArgs J (evaluateCell J n) nm (t @ '','' @ rest) st = Some (Returns (Str s), st1))
   \<and> (matchRange (trim t2) \<noteq> None
       \<and> sumTerm J (evaluateCell J n) nm t2 st = Some (Returns v, st2)
    \<longrightarrow> (\<exists>x. v = Num x))
   \<and> (matchRange (trim t2) \<noteq> None \<and> CHR '','' \<notin> set t2
       \<and> sumArgs J (evaluateCell J n) nm t2 st = Some (Returns v, st2)
    \<longrightarrow> (\<exists>x. v = Num x))
   \<and> (evaluateCell J n nm r c st = Some (Returns (Str s'), st3) \<and> isNaN (js_Number J s')
    \<longrightarrow> sumCells J (evaluateCell J n) nm ((r, c) # ps) acc st
          = sumCells J (evaluateCell J n) nm ps acc st3)"
proof (intro conjI impI)
  assume a: "CHR '','' \<notin> set t \<and> matchA1 (trim t) \<noteq> None
      \<and> evalRef J (evaluateCell J n) nm (trim t) st = Some (Returns (Str s), st1)"
  then have sp: "splitOn (CHR '','') (t @ '','' @ rest) = t # splitOn (CHR '','') rest"
    using splitOn_append [of "CHR '',''" t rest] by simp
  have "sumTerm J (evaluateCell J n) nm t st = Some (Returns (Str s), st1)"
    using a sumTerm_ref [of t J "evaluateCell J n" nm st] by simp
  then show "sumArgs J (evaluateCell J n) nm (t @ '','' @ rest) st = Some (Returns (Str s), st1)"
    unfolding sumArgs_def sp by simp
next
  assume "matchRange (trim t2) \<noteq> None
       \<and> sumTerm J (evaluateCell J n) nm t2 st = Some (Returns v, st2)"
  then show "\<exists>x. v = Num x" using sumTerm_range_number by blast
next
  assume a: "matchRange (trim t2) \<noteq> None \<and> CHR '','' \<notin> set t2
       \<and> sumArgs J (evaluateCell J n) nm t2 st = Some (Returns v, st2)"
  then have sp: "splitOn (CHR '','') t2 = [t2]" by (simp add: splitOn_single)
  have run: "sumTerms J (evaluateCell J n) nm [t2] (Finite 0) st = Some (Returns v, st2)"
    using a sp by (simp add: sumArgs_def)
  show "\<exists>x. v = Num x"
  proof (cases "sumTerm J (evaluateCell J n) nm t2 st")
    case None
    then show ?thesis using run by simp
  next
    case (Some p)
    obtain out st' where p: "p = (out, st')" by (cases p)
    show ?thesis
    proof (cases out)
      case (Throws e)
      then show ?thesis using run Some p by simp
    next
      case (Returns w)
      then obtain x where "w = Num x" using sumTerm_range_number [of t2 J "evaluateCell J n" nm st w st'] a Some p
        by blast
      then show ?thesis using run Some p Returns by auto
    qed
  qed
next
  assume "evaluateCell J n nm r c st = Some (Returns (Str s'), st3) \<and> isNaN (js_Number J s')"
  then show "sumCells J (evaluateCell J n) nm ((r, c) # ps) acc st
          = sumCells J (evaluateCell J n) nm ps acc st3"
    by (simp add: Let_def)
qed

lemma trim_A1: "trim ''A1'' = ''A1''" by code_simp
lemma ref_A1: "matchA1 ''A1'' \<noteq> None" by code_simp
lemma range_A1B1: "matchRange (trim ''A1:B1'') \<noteq> None" by code_simp

theorem sum_short_circuit_witness:
  "(\<exists>st1. evalRef sampleJs (evaluateCell sampleJs 2) ''Sheet1'' ''A1'' (sampleCycle, {})
             = Some (Returns (Str ''#REF!''), st1)
         \<and> sumArgs sampleJs (evaluateCell sampleJs 2) ''Sheet1'' ''A1, B2:B4'' (sampleCycle, {})
             = Some (Returns (Str ''#REF!''), st1)
         \<and> map length (gridOf (fst st1) ''Sheet1'') = [2])
   \<and> (\<exists>x st2. sumTerm sampleJs (evaluateCell sampleJs 3) ''Sheet1'' ''A1:B1'' (sampleCycle, {})
             = Some (Returns (Num x), st2))
   \<and> (\<exists>st3. sumCells sampleJs (evaluateCell sampleJs 2) ''Sheet1'' [(0, 0)] (Finite 0) (sampleCycle, {})
             = Some (Returns (Finite 0), st3))"
proof -
  let ?e = "evalRef sampleJs (evaluateCell sampleJs 2) ''Sheet1'' ''A1'' (sampleCycle, {})"
  have a: "map_option (\<lambda>(out, st). (out, map length (gridOf (fst st) ''Sheet1''))) ?e
      = Some (Returns (Str ''#REF!''), [2])"
    by code_simp
  obtain st1 where st1: "?e = Some (Returns (Str ''#REF!''), st1)"
      "map length (gridOf (fst st1) ''Sheet1'') = [2]"
    using a by (cases ?e) auto
  have b: "sumArgs sampleJs (evaluateCell sampleJs 2) ''Sheet1'' (''A1'' @ '','' @ '' B2:B4'') (sampleCycle, {})
      = Some (Returns (Str ''#REF!''), st1)"
    using sum_short_circuit [where t = "''A1''" and J = sampleJs and n = 2 and nm = "''Sheet1''"
        and st = "(sampleCycle, {})" and s = "''#REF!''" and ?st1.0 = st1 and rest = "'' B2:B4''"]
      st1(1) by (simp add: trim_A1 ref_A1)
  let ?t = "sumTerm sampleJs (evaluateCell sampleJs 3) ''Sheet1'' ''A1:B1'' (sampleCycle, {})"
  have c: "map_option (\<lambda>(out, st). case out of Returns v \<Rightarrow> True | Throws e \<Rightarrow> False) ?t = Some True"
    by code_simp
  obtain v st2 where t: "?t = Some (Returns v, st2)"
    using c by (cases ?t) (auto split: outcome.splits)
  obtain x where x: "v = Num x"
    using sum_short_circuit [where J = sampleJs and n = 3 and nm = "''Sheet1''"
        and st = "(sampleCycle, {})" and ?t2.0 = "''A1:B1''" and v = v and ?st2.0 = st2]
      t range_A1B1 by blast
  let ?c = "evaluateCell sampleJs 2 ''Sheet1'' 0 0 (sampleCycle, {})"
  have "map_option fst ?c = Some (Returns (Str ''#REF!''))" by code_simp
  then obtain st3 where st3: "?c = Some (Returns (Str ''#REF!''), st3)" by (cases ?c) auto
  have nan: "isNaN (js_Number sampleJs ''#REF!'')" by code_simp
  have d: "sumCells sampleJs (evaluateCell sampleJs 2) ''Sheet1'' [(0, 0)] (Finite 0) (sampleCycle, {})
      = Some (Returns (Finite 0), st3)"
    using sum_short_circuit [where J = sampleJs and n = 2 and nm = "''Sheet1''"
        and st = "(sampleCycle, {})" and r = 0 and c = 0 and s' = "''#REF!''" and ?st3.0 = st3
        and ps = "[]" and acc = "Finite 0"]
      st3 nan by simp
  show ?thesis using st1 b t x d by auto
qed

subsection \<open>Numeric literals in an aggregation\<close>

lemma trim_1000: "trim ''1,000'' = ''1,000''" by code_simp
lemma trim_1: "trim ''1'' = ''1''" by code_simp
lemma trim_000: "trim ''000'' = ''000''" by code_simp
lemma no_range_1000: "matchRange ''1,000'' = None" by code_simp
lemma no_range_1: "matchRange ''1'' = None" by code_simp
lemma no_range_000: "matchRange ''000'' = None" by code_simp
lemma no_ref_1000: "matchA1 ''1,000'' = None" by code_simp
lemma no_ref_1: "matchA1 ''1'' = None" by code_simp
lemma no_ref_000: "matchA1 ''000'' = None" by code_simp
lemma number_1000: "sampleNumber ''1000'' = Finite 1000" by code_simp
lemma number_1: "sampleNumber ''1'' = Finite 1" by code_simp
lemma number_000: "sampleNumber ''000'' = Finite 0" by code_simp
lemma split_1000: "splitOn (CHR '','') ''1,000'' = [''1'', ''000'']" by code_simp
lemma strip_1000: "filter (\<lambda>x. x \<noteq> CHR '','') ''1,000'' = ''1000''" by simp

text \<open>
  C7 fails on the code. \<open>sumTerm\<close> alone reads the literal "1,000" as 1000, but
  \<open>sumArgs\<close> has split the argument list at every comma before \<open>sumTerm\<close> sees a term:
  \<open>SUM(1,000)\<close> is the sum of "1" and "000", that is 1.
\<close>

theorem thousands_literal_split:
  "sumTerm sampleJs ev nm ''1,000'' st = Some (Returns (Num (Finite 1000)), st)
   \<and> sumArgs sampleJs ev nm ''1,000'' st = Some (Returns (Num (Finite 1)), st)"
proof -
  have a: "sumTerm sampleJs ev nm ''1,000'' st = Some (Returns (Num (Finite 1000)), st)"
    by (simp add: sumTerm_def trim_1000 no_range_1000 no_ref_1000 sampleJs_def number_1000)
  have b: "sumTerm sampleJs ev nm ''1'' st = Some (Returns (Num (Finite 1)), st)"
    by (simp add: sumTerm_def trim_1 no_range_1 no_ref_1 sampleJs_def number_1)
  have c: "sumTerm sampleJs ev nm ''000'' st = Some (Returns (Num (Finite 0)), st)"
    by (simp add: sumTerm_def trim_000 no_range_000 no_ref_000 sampleJs_def number_000)
  have "sumArgs sampleJs ev nm ''1,000'' st = Some (Returns (Num (Finite 1)), st)"
    unfolding sumArgs_def split_1000 using b c by (simp add: sampleJs_def)
  then show ?thesis using a by simp
qed

subsection \<open>Cycles\<close>

lemma slot_padded_inside:
  assumes "slot g r c = Some x"
  shows "slot (padded nr nc g) r c = Some x"
proof -
  have "r < length g \<and> c < length (g ! r) \<and> g ! r ! c = Some x"
    using assms by (simp add: slot_def split: if_splits)
  then show ?thesis by (simp add: slot_padded)
qed

lemma evaluateCell_seen:
  assumes hs: "map_of (sheets m) nm \<noteq> None" and pos: "0 \<le> r" "0 \<le> c"
    and key: "(nm, r, c) \<in> seen"
    and x: "slot (gridOf m nm) (nat r) (nat c) = Some x"
  shows "\<exists>m'. evaluateCell J (Suc k) nm r c (m, seen) = Some (Returns (Str ''#REF!''), (m', seen))
           \<and> ext nm (m, seen) (m', seen)
           \<and> slot (gridOf m' nm) (nat r) (nat c) = Some (x\<lparr>val := Str ''#REF!''\<rparr>)"
proof -
  obtain m1 where g: "getCell nm r c m = (readCell (gridOf m1 nm) r c, m1)"
    "map_of (sheets m1) nm \<noteq> None"
    "gridOf m1 nm = padded (r + 1) (c + 1) (gridOf m nm)"
    using getCell_effect [OF hs] by metis
  have x1: "slot (gridOf m1 nm) (nat r) (nat c) = Some x"
    using slot_padded_inside [OF x] g(3) by simp
  have rd: "readCell (gridOf m1 nm) r c = Returns (Some x)"
    using readCell_padded [OF pos] x1 g(3) by simp
  let ?m' = "setCellValue nm r c (Str ''#REF!'') m1"
  have run: "evaluateCell J (Suc k) nm r c (m, seen) = Some (Returns (Str ''#REF!''), (?m', seen))"
    using g(1) rd key by (simp add: evaluateCellBody_def)
  have e1: "ext nm (m, seen) (m1, seen)"
    using getCell_ext [OF hs, of r c _ m1 seen seen] g(1) by simp
  have rc: "r = int (nat r)" "c = int (nat c)" using pos by simp_all
  have e2: "ext nm (m1, seen) (?m', seen)"
    using setCellValue_ext [OF g(2) x1, of seen "Str ''#REF!''"] rc by simp
  have "gridOf ?m' nm = (gridOf m1 nm)[nat r := (gridOf m1 nm ! nat r)[nat c := Some (x\<lparr>val := Str ''#REF!''\<rparr>)]]"
    using setCellValue_effect(2) [OF g(2) x1, of "Str ''#REF!''"] rc by simp
  then have "slot (gridOf ?m' nm) (nat r) (nat c) = Some (x\<lparr>val := Str ''#REF!''\<rparr>)"
    using x1 by (simp add: slot_update slot_def split: if_splits)
  then show ?thesis using run ext_trans [OF e1 e2] by blast
qed

lemma evaluateCell_live:
  assumes hs: "map_of (sheets m) nm \<noteq> None" and pos: "0 \<le> r" "0 \<le> c"
    and key: "(nm, r, c) \<notin> seen"
    and x: "slot (gridOf m nm) (nat r) (nat c) = Some x"
    and f: "formula x = Some ftext" "ftext \<noteq> []" "startsWith ''='' (trim ftext)"
  shows "\<exists>m1. map_of (sheets m1) nm \<noteq> None
           \<and> gridOf m1 nm = padded (r + 1) (c + 1) (gridOf m nm)
           \<and> ext nm (m, seen) (m1, insert (nm, r, c) seen)
           \<and> evaluateCell J (Suc k) nm r c (m, seen) =
               (case substitute J (evaluateCell J k) nm (drop 1 (trim ftext)) (m1, insert (nm, r, c) seen) of
                  None \<Rightarrow> None
                | Some (Throws e, st2) \<Rightarrow> Some (Throws e, st2)
                | Some (Returns expr2, st2) \<Rightarrow> Some (finish J nm r c expr2 st2))"
proof -
  obtain m1 where g: "getCell nm r c m = (readCell (gridOf m1 nm) r c, m1)"
    "map_of (sheets m1) nm \<noteq> None"
    "gridOf m1 nm = padded (r + 1) (c + 1) (gridOf m nm)"
    using getCell_effect [OF hs] by metis
  have x1: "slot (gridOf m1 nm) (nat r) (nat c) = Some x"
    using slot_padded_inside [OF x] g(3) by simp
  have rd: "readCell (gridOf m1 nm) r c = Returns (Some x)"
    using readCell_padded [OF pos] x1 g(3) by simp
  have e1: "ext nm (m, seen) (m1, insert (nm, r, c) seen)"
    using getCell_ext [OF hs, of r c _ m1 seen "insert (nm, r, c) seen"] g(1) by auto
  have "evaluateCell J (Suc k) nm r c (m, seen) =
               (case substitute J (evaluateCell J k) nm (drop 1 (trim ftext)) (m1, insert (nm, r, c) seen) of
                  None \<Rightarrow> None
                | Some (Throws e, st2) \<Rightarrow> Some (Throws e, st2)
                | Some (Returns expr2, st2) \<Rightarrow> Some (finish J nm r c expr2 st2))"
    using g(1) rd key f by (simp add: evaluateCellBody_def Let_def)
  then show ?thesis using g(2) g(3) e1 by blast
qed

lemma finish_REF:
  "strIncludes ''#REF!'' expr \<Longrightarrow>
   finish J nm r c expr st = (Returns (Str ''#REF!''), (setCellValue nm r c (Str ''#REF!'') (fst st), snd st))"
  by (simp add: finish_def Let_def)

lemma trim_fA1: "trim ''=A1'' = ''=A1''" by code_simp
lemma starts_fA1: "startsWith ''='' ''=A1''" by code_simp
lemma sumScan_A1: "sumScan 0 ''A1'' = [Lit (CHR ''A''), Lit (CHR ''1'')]" by code_simp
lemma refScan_A1: "refScan False 0 ''A1'' = [Hit ''A1'']" by code_simp
lemma a1ToRc_A1: "a1ToRc ''A1'' = Inr (0, 0)" by code_simp
lemma includes_REF: "strIncludes ''#REF!'' ''#REF!''" by code_simp

lemma substitute_A1:
  assumes "ev nm 0 0 st = Some (Returns (Str s), st1)"
  shows "substitute J ev nm ''A1'' st = Some (Returns s, st1)"
proof -
  have r1: "replaceHits (\<lambda>args st'. asString J (sumArgs J ev nm args st')) (sumScan 0 ''A1'') st
      = Some (Returns ''A1'', st)"
    unfolding sumScan_A1 by simp
  have e: "evalRef J ev nm ''A1'' st = Some (Returns (Str s), st1)"
    unfolding evalRef_def a1ToRc_A1 using assms by simp
  have r2: "replaceHits (\<lambda>a1 st'. asString J (evalRef J ev nm a1 st')) (refScan False 0 ''A1'') st
      = Some (Returns s, st1)"
    unfolding refScan_A1 using e by (simp add: asString_def)
  show ?thesis
    unfolding substitute_def r1 option.case prod.case outcome.case by (rule r2)
qed

lemma self_reference:
  assumes hs: "map_of (sheets m) nm \<noteq> None"
    and a: "slot (gridOf m nm) 0 0 = Some a" "formula a = Some ''=A1''"
    and key: "(nm, 0, 0) \<notin> seen"
  shows "\<exists>m'. evaluateCell J (Suc (Suc k)) nm 0 0 (m, seen)
                 = Some (Returns (Str ''#REF!''), (m', insert (nm, 0, 0) seen))
           \<and> ext nm (m, seen) (m', insert (nm, 0, 0) seen)
           \<and> slot (gridOf m' nm) 0 0 = Some (a\<lparr>val := Str ''#REF!''\<rparr>)"
proof -
  let ?seen = "insert (nm, 0, 0) seen"
  obtain m1 where m1: "map_of (sheets m1) nm \<noteq> None"
      "gridOf m1 nm = padded (0 + 1) (0 + 1) (gridOf m nm)"
      "ext nm (m, seen) (m1, ?seen)"
      "evaluateCell J (Suc (Suc k)) nm 0 0 (m, seen) =
         (case substitute J (evaluateCell J (Suc k)) nm (drop 1 (trim ''=A1'')) (m1, ?seen) of
            None \<Rightarrow> None
          | Some (Throws e, st2) \<Rightarrow> Some (Throws e, st2)
          | Some (Returns expr2, st2) \<Rightarrow> Some (finish J nm 0 0 expr2 st2))"
    using evaluateCell_live [OF hs _ _ key, of a "''=A1''" J "Suc k"] a
    by (auto simp: trim_fA1 starts_fA1)
  have a1: "slot (gridOf m1 nm) (nat 0) (nat 0) = Some a"
    using slot_padded_inside [OF a(1)] m1(2) by simp
  obtain m2 where m2:
      "evaluateCell J (Suc k) nm 0 0 (m1, ?seen) = Some (Returns (Str ''#REF!''), (m2, ?seen))"
      "ext nm (m1, ?seen) (m2, ?seen)"
      "slot (gridOf m2 nm) (nat 0) (nat 0) = Some (a\<lparr>val := Str ''#REF!''\<rparr>)"
    using evaluateCell_seen [OF m1(1) _ _ _ a1, of ?seen J k] by auto
  have sub: "substitute J (evaluateCell J (Suc k)) nm ''A1'' (m1, ?seen) = Some (Returns ''#REF!'', (m2, ?seen))"
    by (rule substitute_A1 [where ev = "evaluateCell J (Suc k)", OF m2(1)])
  let ?m' = "setCellValue nm 0 0 (Str ''#REF!'') m2"
  have run: "evaluateCell J (Suc (Suc k)) nm 0 0 (m, seen) = Some (Returns (Str ''#REF!''), (?m', ?seen))"
    using m1(4) sub by (simp add: trim_fA1 finish_REF includes_REF)
  have hs2: "map_of (sheets m2) nm \<noteq> None" using ext_hasSheet [OF m2(2)] by simp
  have sl2: "slot (gridOf m2 nm) 0 0 = Some (a\<lparr>val := Str ''#REF!''\<rparr>)" using m2(3) by simp
  have e3: "ext nm (m2, ?seen) (setCellValue nm (int 0) (int 0) (Str ''#REF!'') m2, ?seen)"
    by (rule setCellValue_ext [OF hs2 sl2])
  have "gridOf (setCellValue nm (int 0) (int 0) (Str ''#REF!'') m2) nm =
      (gridOf m2 nm)[0 := (gridOf m2 nm ! 0)[0 := Some (a\<lparr>val := Str ''#REF!''\<rparr>\<lparr>val := Str ''#REF!''\<rparr>)]]"
    by (rule setCellValue_effect(2) [OF hs2 sl2])
  then have "slot (gridOf ?m' nm) 0 0 = Some (a\<lparr>val := Str ''#REF!''\<rparr>)"
    using sl2 by (simp add: slot_update slot_def split: if_splits)
  moreover have "ext nm (m, seen) (?m', ?seen)"
    using ext_trans [OF m1(3) ext_trans [OF m2(2) e3]] by simp
  ultimately show ?thesis using run by blast
qed

lemma replaceHits_lits: "replaceHits f (map Lit s) st = Some (Returns s, st)"
  by (induction s) simp_all

lemma trim_fA1p10: "trim ''=A1+10'' = ''=A1+10''" by code_simp
lemma starts_fA1p10: "startsWith ''='' ''=A1+10''" by code_simp
lemma sumScan_A1p10: "sumScan 0 ''A1+10'' = map Lit ''A1+10''" by code_simp
lemma refScan_A1p10:
  "refScan False 0 ''A1+10'' = [Hit ''A1'', Lit (CHR ''+''), Lit (CHR ''1''), Lit (CHR ''0'')]"
  by code_simp
lemma includes_REFp10: "strIncludes ''#REF!'' ''#REF!+10''" by code_simp

lemma substitute_A1p10:
  assumes "ev nm 0 0 st = Some (Returns (Str s), st1)"
  shows "substitute J ev nm ''A1+10'' st = Some (Returns (s @ ''+10''), st1)"
proof -
  have r1: "replaceHits (\<lambda>args st'. asString J (sumArgs J ev nm args st')) (sumScan 0 ''A1+10'') st
      = Some (Returns ''A1+10'', st)"
    unfolding sumScan_A1p10 by (rule replaceHits_lits)
  have e: "evalRef J ev nm ''A1'' st = Some (Returns (Str s), st1)"
    unfolding evalRef_def a1ToRc_A1 using assms by simp
  have r2: "replaceHits (\<lambda>a1 st'. asString J (evalRef J ev nm a1 st')) (refScan False 0 ''A1+10'') st
      = Some (Returns (s @ ''+10''), st1)"
    unfolding refScan_A1p10 using e by (simp add: asString_def)
  show ?thesis
    unfolding substitute_def r1 option.case prod.case outcome.case by (rule r2)
qed

lemma dependent_reference:
  assumes hs: "map_of (sheets m) nm \<noteq> None"
    and a: "slot (gridOf m nm) 0 0 = Some a" "formula a = Some ''=A1''"
    and b: "slot (gridOf m nm) 0 1 = Some b" "formula b = Some ''=A1+10''"
    and key: "(nm, 0, 0) \<notin> seen" "(nm, 0, 1) \<notin> seen"
  shows "\<exists>m' seen'. evaluateCell J (Suc (Suc (Suc k))) nm 0 1 (m, seen)
                 = Some (Returns (Str ''#REF!''), (m', seen'))
           \<and> slot (gridOf m' nm) 0 1 = Some (b\<lparr>val := Str ''#REF!''\<rparr>)
           \<and> slot (gridOf m' nm) 0 0 = Some (a\<lparr>val := Str ''#REF!''\<rparr>)"
proof -
  let ?seen = "insert (nm, 0, 1) seen"
  obtain m1 where m1: "map_of (sheets m1) nm \<noteq> None"
      "gridOf m1 nm = padded (0 + 1) (1 + 1) (gridOf m nm)"
      "evaluateCell J (Suc (Suc (Suc k))) nm 0 1 (m, seen) =
         (case substitute J (evaluateCell J (Suc (Suc k))) nm (drop 1 (trim ''=A1+10'')) (m1, ?seen) of
            None \<Rightarrow> None
          | Some (Throws e, st2) \<Rightarrow> Some (Throws e, st2)
          | Some (Returns expr2, st2) \<Rightarrow> Some (finish J nm 0 1 expr2 st2))"
    using evaluateCell_live [OF hs _ _ key(2), of b "''=A1+10''" J "Suc (Suc k)"] b
    by (auto simp: trim_fA1p10 starts_fA1p10)
  have a1: "slot (gridOf m1 nm) 0 0 = Some a"
    using slot_padded_inside [OF a(1)] m1(2) by simp
  have b1: "slot (gridOf m1 nm) 0 1 = Some b"
    using slot_padded_inside [OF b(1)] m1(2) by simp
  have k0: "(nm, 0, 0) \<notin> ?seen" using key(1) by simp
  obtain m2 where m2:
      "evaluateCell J (Suc (Suc k)) nm 0 0 (m1, ?seen)
          = Some (Returns (Str ''#REF!''), (m2, insert (nm, 0, 0) ?seen))"
      "ext nm (m1, ?seen) (m2, insert (nm, 0, 0) ?seen)"
      "slot (gridOf m2 nm) 0 0 = Some (a\<lparr>val := Str ''#REF!''\<rparr>)"
    using self_reference [OF m1(1) a1 a(2) k0, of J k] by blast
  have gr: "grows (gridOf m1 nm) (gridOf m2 nm)" using m2(2) by (simp add: ext_def)
  obtain w where b2: "slot (gridOf m2 nm) 0 1 = Some (b\<lparr>val := w\<rparr>)"
    using grows_some [OF gr b1] by blast
  have hs2: "map_of (sheets m2) nm \<noteq> None" using ext_hasSheet [OF m2(2)] by simp
  have sub: "substitute J (evaluateCell J (Suc (Suc k))) nm ''A1+10'' (m1, ?seen)
      = Some (Returns (''#REF!'' @ ''+10''), (m2, insert (nm, 0, 0) ?seen))"
    by (rule substitute_A1p10 [where ev = "evaluateCell J (Suc (Suc k))", OF m2(1)])
  let ?m' = "setCellValue nm 0 1 (Str ''#REF!'') m2"
  have run: "evaluateCell J (Suc (Suc (Suc k))) nm 0 1 (m, seen)
      = Some (Returns (Str ''#REF!''), (?m', insert (nm, 0, 0) ?seen))"
    using m1(3) sub includes_REFp10 by (simp add: trim_fA1p10 finish_REF)
  have g': "gridOf (setCellValue nm (int 0) (int 1) (Str ''#REF!'') m2) nm =
      (gridOf m2 nm)[0 := (gridOf m2 nm ! 0)[1 := Some (b\<lparr>val := w\<rparr>\<lparr>val := Str ''#REF!''\<rparr>)]]"
    by (rule setCellValue_effect(2) [OF hs2 b2])
  have sb: "slot (gridOf ?m' nm) 0 1 = Some (b\<lparr>val := Str ''#REF!''\<rparr>)"
    using g' b2 by (simp add: slot_update slot_def split: if_splits)
  have sa: "slot (gridOf ?m' nm) 0 0 = Some (a\<lparr>val := Str ''#REF!''\<rparr>)"
    using g' m2(3) by (simp add: slot_update)
  show ?thesis using run sb sa by blast
qed

text \<open>
  C4. In any workbook whose sheet has a cell A1 with the formula "=A1" and a cell B1
  with the formula "=A1+10": evaluating A1 (a fresh top-level call, with any fuel from 2
  on) returns the string "#REF!" and stores it as the value of A1; evaluating B1
  afterwards (with any fuel from 3 on) returns exactly "#REF!" as a value, neither an
  exception nor "#REF!+10", and stores it as the value of B1.
\<close>

theorem cycle_sentinel:
  assumes hs: "map_of (sheets m) nm \<noteq> None"
    and a: "slot (gridOf m nm) 0 0 = Some a" "formula a = Some ''=A1''"
    and b: "slot (gridOf m nm) 0 1 = Some b" "formula b = Some ''=A1+10''"
  shows "\<exists>m1 s1 m2 s2.
           evaluateCell J (Suc (Suc k)) nm 0 0 (m, {}) = Some (Returns (Str ''#REF!''), (m1, s1))
         \<and> slot (gridOf m1 nm) 0 0 = Some (a\<lparr>val := Str ''#REF!''\<rparr>)
         \<and> evaluateCell J (Suc (Suc (Suc k'))) nm 0 1 (m1, {}) = Some (Returns (Str ''#REF!''), (m2, s2))
         \<and> slot (gridOf m2 nm) 0 1 = Some (b\<lparr>val := Str ''#REF!''\<rparr>)"
proof -
  obtain m1 where m1:
      "evaluateCell J (Suc (Suc k)) nm 0 0 (m, {}) = Some (Returns (Str ''#REF!''), (m1, insert (nm, 0, 0) {}))"
      "ext nm (m, {}) (m1, insert (nm, 0, 0) {})"
      "slot (gridOf m1 nm) 0 0 = Some (a\<lparr>val := Str ''#REF!''\<rparr>)"
    using self_reference [OF hs a, of "{}" J k] by blast
  have hs1: "map_of (sheets m1) nm \<noteq> None" using ext_hasSheet [OF m1(2)] by simp
  have gr: "grows (gridOf m nm) (gridOf m1 nm)" using m1(2) by (simp add: ext_def)
  obtain w where b1: "slot (gridOf m1 nm) 0 1 = Some (b\<lparr>val := w\<rparr>)"
    using grows_some [OF gr b(1)] by blast
  obtain m2 s2 where m2:
      "evaluateCell J (Suc (Suc (Suc k'))) nm 0 1 (m1, {}) = Some (Returns (Str ''#REF!''), (m2, s2))"
      "slot (gridOf m2 nm) 0 1 = Some (b\<lparr>val := w\<rparr>\<lparr>val := Str ''#REF!''\<rparr>)"
    using dependent_reference [OF hs1 m1(3) _ b1, of "{}" J k'] a(2) b(2) by auto
  have "slot (gridOf m2 nm) 0 1 = Some (b\<lparr>val := Str ''#REF!''\<rparr>)" using m2(2) by simp
  then show ?thesis using m1(1) m1(3) m2(1) by blast
qed

lemma sampleCycle_sheet: "map_of (sheets sampleCycle) ''Sheet1'' \<noteq> None"
  by code_simp

lemma sampleCycle_A1:
  "slot (gridOf sampleCycle ''Sheet1'') 0 0
     = Some \<lparr>val = Null, formula = Some ''=A1'', format = None, provenance = None\<rparr>"
  by code_simp

lemma sampleCycle_B1:
  "slot (gridOf sampleCycle ''Sheet1'') 0 1
     = Some \<lparr>val = Null, formula = Some ''=A1+10'', format = None, provenance = None\<rparr>"
  by code_simp

theorem cycle_sentinel_witness:
  "\<exists>m1 s1 m2 s2.
       evaluateCell sampleJs (Suc (Suc 0)) ''Sheet1'' 0 0 (sampleCycle, {})
         = Some (Returns (Str ''#REF!''), (m1, s1))
     \<and> slot (gridOf m1 ''Sheet1'') 0 0
         = Some \<lparr>val = Str ''#REF!'', formula = Some ''=A1'', format = None, provenance = None\<rparr>
     \<and> evaluateCell sampleJs (Suc (Suc (Suc 0))) ''Sheet1'' 0 1 (m1, {})
         = Some (Returns (Str ''#REF!''), (m2, s2))
     \<and> slot (gridOf m2 ''Sheet1'') 0 1
         = Some \<lparr>val = Str ''#REF!'', formula = Some ''=A1+10'', format = None, provenance = None\<rparr>"
  using cycle_sentinel [OF sampleCycle_sheet sampleCycle_A1 _ sampleCycle_B1, of sampleJs 0 0]
  by simp

subsection \<open>The outcome of the arithmetic\<close>

lemma evaluateCell_tot:
  assumes "k' < k"
  shows "tot nm k' (evaluateCell J k nm r c)"
proof (rule totI)
  fix st :: est
  assume hs: "map_of (sheets (fst st)) nm \<noteq> None" and cd: "card (todo nm st) \<le> k'"
  then have "card (todo nm st) < k" using assms by simp
  then obtain out st' m' where a: "evaluateCell J k nm r c st = Some (out, st')"
      "map_of (sheets m') nm \<noteq> None"
      "gridOf m' nm = padded (r + 1) (c + 1) (gridOf (fst st) nm)"
      "events m' = events (fst st)"
      "ext nm (m', insert (nm, r, c) (snd st)) st'"
    using evaluateCell_total [OF hs, of k J r c] by blast
  have "ext nm st (m', insert (nm, r, c) (snd st))"
    using a(2) a(3) a(4) by (auto simp: ext_def grows_padded)
  then have "ext nm st st'" using ext_trans a(5) by blast
  then show "\<exists>out st'. evaluateCell J k nm r c st = Some (out, st') \<and> ext nm st st'"
    using a(1) by blast
qed

lemma evaluateCell_residual:
  assumes hs: "map_of (sheets m) nm \<noteq> None" and pos: "0 \<le> r" "0 \<le> c"
    and key: "(nm, r, c) \<notin> seen"
    and x: "slot (gridOf m nm) (nat r) (nat c) = Some x"
    and f: "formula x = Some ftext" "ftext \<noteq> []" "startsWith ''='' (trim ftext)"
  shows "evaluateCell J (Suc k) nm r c (m, seen) =
           (case residual J k nm r c ftext (m, seen) of
              None \<Rightarrow> None
            | Some (Throws e, st2) \<Rightarrow> Some (Throws e, st2)
            | Some (Returns expr2, st2) \<Rightarrow> Some (finish J nm r c expr2 st2))"
proof -
  obtain m1 where g: "getCell nm r c m = (readCell (gridOf m1 nm) r c, m1)"
    "gridOf m1 nm = padded (r + 1) (c + 1) (gridOf m nm)"
    using getCell_effect [OF hs] by metis
  have x1: "slot (gridOf m1 nm) (nat r) (nat c) = Some x"
    using slot_padded_inside [OF x] g(2) by simp
  have rd: "readCell (gridOf m1 nm) r c = Returns (Some x)"
    using readCell_padded [OF pos] x1 g(2) by simp
  show ?thesis
    using g(1) rd key f by (simp add: evaluateCellBody_def Let_def residual_def)
qed

text \<open>
  C6, as the code has it. Take a cell with a live formula, visited for the first time
  with fuel above the number of unvisited formula cells, whose residual expression
  \<open>expr\<close> holds no sentinel. Then \<open>evaluateCell\<close> returns normally, and the value it
  returns is stored in the cell: it is "#ERROR!" when running \<open>expr\<close> throws, so no
  exception escapes; it is the number itself when the run gives a number, also when that
  number is an infinity or NaN; and for a result of another type it is its conversion
  to a number, with 0 in place of NaN.
\<close>

theorem arithmetic_outcome:
  assumes hs: "map_of (sheets m) nm \<noteq> None" and pos: "0 \<le> r" "0 \<le> c"
    and key: "(nm, r, c) \<notin> seen"
    and x: "slot (gridOf m nm) (nat r) (nat c) = Some x"
    and f: "formula x = Some ftext" "ftext \<noteq> []" "startsWith ''='' (trim ftext)"
    and fuel: "card (todo nm (m, seen)) \<le> k"
    and res: "residual J k nm r c ftext (m, seen) = Some (Returns expr, st2)"
    and ns: "\<not> strIncludes ''#REF!'' expr" "\<not> strIncludes ''#ERROR!'' expr"
  shows "\<exists>m' v. evaluateCell J (Suc k) nm r c (m, seen) = Some (Returns v, (m', snd st2))
           \<and> slot (gridOf m' nm) (nat r) (nat c) = Some (x\<lparr>val := v\<rparr>)
           \<and> v = (case js_run J expr of
                     Threw \<Rightarrow> Str ''#ERROR!''
                   | GaveNumber n \<Rightarrow> Num n
                   | GaveOther n \<Rightarrow> Num (if isNaN n then Finite 0 else n))"
proof -
  let ?seen = "insert (nm, r, c) seen"
  let ?v = "case js_run J expr of
                     Threw \<Rightarrow> Str ''#ERROR!''
                   | GaveNumber n \<Rightarrow> Num n
                   | GaveOther n \<Rightarrow> Num (if isNaN n then Finite 0 else n)"
  obtain m1 where g: "getCell nm r c m = (readCell (gridOf m1 nm) r c, m1)"
    "map_of (sheets m1) nm \<noteq> None"
    "gridOf m1 nm = padded (r + 1) (c + 1) (gridOf m nm)"
    using getCell_effect [OF hs] by metis
  have sub: "substitute J (evaluateCell J k) nm (drop 1 (trim ftext)) (m1, ?seen) = Some (Returns expr, st2)"
    using res g(1) by (simp add: residual_def)
  have x1: "slot (gridOf m1 nm) (nat r) (nat c) = Some x"
    using slot_padded_inside [OF x] g(3) by simp
  have gr: "grows (gridOf m nm) (gridOf m1 nm)" using g(3) by (simp add: grows_padded)
  have "card (todo nm (m1, ?seen)) < card (todo nm (m1, seen))"
    using todo_visit [OF x1 _ pos key] f by simp
  then have lt: "card (todo nm (m1, ?seen)) < k" using todo_grid [OF gr] fuel by simp
  then have le: "card (todo nm (m1, ?seen)) \<le> k - 1" and k0: "k - 1 < k" by simp_all
  have ev: "\<And>r' c'. tot nm (k - 1) (evaluateCell J k nm r' c')"
    by (rule evaluateCell_tot [OF k0])
  have hs1: "map_of (sheets (fst (m1, ?seen))) nm \<noteq> None" using g(2) by simp
  obtain out2 st2' where sb:
      "substitute J (evaluateCell J k) nm (drop 1 (trim ftext)) (m1, ?seen) = Some (out2, st2')"
      "ext nm (m1, ?seen) st2'"
    using totD [OF substitute_tot [where ev = "evaluateCell J k" and nm = nm and k = "k - 1", OF ev] hs1 le]
    by blast
  have e2: "ext nm (m1, ?seen) st2" using sb sub by simp
  have hs2: "map_of (sheets (fst st2)) nm \<noteq> None" using ext_hasSheet [OF e2] .
  have "grows (gridOf m1 nm) (gridOf (fst st2) nm)" using e2 by (simp add: ext_def)
  then obtain w where x2: "slot (gridOf (fst st2) nm) (nat r) (nat c) = Some (x\<lparr>val := w\<rparr>)"
    using grows_some [OF _ x1] by blast
  have fin: "finish J nm r c expr st2 = (Returns ?v, (setCellValue nm r c ?v (fst st2), snd st2))"
    using ns by (simp add: finish_def Let_def)
  have run: "evaluateCell J (Suc k) nm r c (m, seen) = Some (Returns ?v, (setCellValue nm r c ?v (fst st2), snd st2))"
    using evaluateCell_residual [OF hs pos key x f, of J k] res fin by simp
  have rc: "r = int (nat r)" "c = int (nat c)" using pos by simp_all
  have "gridOf (setCellValue nm (int (nat r)) (int (nat c)) ?v (fst st2)) nm =
      (gridOf (fst st2) nm)[nat r := (gridOf (fst st2) nm ! nat r)[nat c := Some (x\<lparr>val := w\<rparr>\<lparr>val := ?v\<rparr>)]]"
    by (rule setCellValue_effect(2) [OF hs2 x2])
  then have "slot (gridOf (setCellValue nm r c ?v (fst st2)) nm) (nat r) (nat c) = Some (x\<lparr>val := ?v\<rparr>)"
    using x2 rc by (simp add: slot_update slot_def split: if_splits)
  then show ?thesis using run by blast
qed

lemma sampleBad_sheet: "map_of (sheets sampleBad) ''Sheet1'' \<noteq> None"
  by code_simp

lemma sampleBad_grid:
  "gridOf sampleBad ''Sheet1'' =
     [[Some \<lparr>val = Null, formula = Some ''=1+/2'', format = None, provenance = None\<rparr>]]"
  by code_simp

lemma starts_bad: "startsWith ''='' (trim ''=1+/2'')" by code_simp
lemma bad_no_REF: "\<not> strIncludes ''#REF!'' ''1+/2''" by code_simp
lemma bad_no_ERROR: "\<not> strIncludes ''#ERROR!'' ''1+/2''" by code_simp
lemma bad_throws: "js_run sampleJs ''1+/2'' = Threw" by code_simp

theorem arithmetic_outcome_witness:
  "\<exists>m' s'. evaluateCell sampleJs (Suc 1) ''Sheet1'' 0 0 (sampleBad, {})
              = Some (Returns (Str ''#ERROR!''), (m', s'))
         \<and> slot (gridOf m' ''Sheet1'') 0 0
              = Some \<lparr>val = Str ''#ERROR!'', formula = Some ''=1+/2'', format = None, provenance = None\<rparr>"
proof -
  let ?x = "\<lparr>val = Null, formula = Some ''=1+/2'', format = None, provenance = None\<rparr>"
  have x: "slot (gridOf sampleBad ''Sheet1'') (nat 0) (nat 0) = Some ?x"
    by (simp add: sampleBad_grid slot_def)
  have fuel: "card (todo ''Sheet1'' (sampleBad, {})) \<le> 1"
    using todo_bound [of "''Sheet1''" sampleBad "{}"] by (simp add: sampleBad_grid)
  let ?r = "residual sampleJs 1 ''Sheet1'' 0 0 ''=1+/2'' (sampleBad, {})"
  have "map_option fst ?r = Some (Returns ''1+/2'')" by code_simp
  then obtain st2 where res: "?r = Some (Returns ''1+/2'', st2)" by (cases ?r) auto
  obtain m' v where e:
      "evaluateCell sampleJs (Suc 1) ''Sheet1'' 0 0 (sampleBad, {}) = Some (Returns v, (m', snd st2))"
      "slot (gridOf m' ''Sheet1'') (nat 0) (nat 0) = Some (?x\<lparr>val := v\<rparr>)"
      "v = (case js_run sampleJs ''1+/2'' of
                     Threw \<Rightarrow> Str ''#ERROR!''
                   | GaveNumber n \<Rightarrow> Num n
                   | GaveOther n \<Rightarrow> Num (if isNaN n then Finite 0 else n))"
    using arithmetic_outcome [OF sampleBad_sheet _ _ _ x _ _ starts_bad fuel res bad_no_REF bad_no_ERROR]
    by auto
  have "v = Str ''#ERROR!''" using e(3) by (simp add: bad_throws)
  then show ?thesis using e(1) e(2) by auto
qed

text \<open>
  The claim as stated fails for a non-finite result: the residual expression "1/0" runs
  to the number Infinity, and the cell's stored value is that number, not "#ERROR!".
\<close>

theorem division_by_zero_counterexample:
  "js_run sampleJs ''1/0'' = GaveNumber PosInf
   \<and> \<not> isFinite PosInf
   \<and> map_option (\<lambda>(out, st). (out, slot (gridOf (fst st) ''Sheet1'') 0 0))
        (evaluateCell sampleJs (Suc 1) ''Sheet1'' 0 0 (sampleDiv, {}))
      = Some (Returns (Num PosInf),
              Some \<lparr>val = Num PosInf, formula = Some ''=1/0'', format = None, provenance = None\<rparr>)"
  by code_simp

end
